theory Spec2Isabelle
  imports Complex_Main "HOL-Library.Word"
begin

section \<open>Python values, exceptions and objects\<close>

text \<open>
  Exceptions of the Python source are values: a function that can raise returns
  \<open>error + 'a\<close>, with \<open>Inl\<close> for the exception that propagates to the caller.
  \<open>ValueError\<close> carries its message, which is how the source tells the integrity
  failure of a package from the other value errors of the libraries it calls.
\<close>

datatype error =
    TypeError
  | KeyError
  | IndexError
  | ZeroDivisionError
  | ValueError string
  | BinasciiError

text \<open>
  The values an EHR dictionary holds (\<open>ehr_data: Dict\<close> is untyped in the source):
  integers, strings and \<open>None\<close>.
\<close>

datatype pyval = PInt int | PStr string | PNone

type_synonym pydict = "string \<rightharpoonup> pyval"

text \<open>
  Dictionaries are mutable objects. The store is the list of all dictionary objects
  allocated so far, a reference is an index into it, and a new object is appended.
\<close>

type_synonym heap = "pydict list"

definition dict_copy :: "heap \<Rightarrow> nat \<Rightarrow> nat \<times> heap" where
  \<comment> \<open>\<open>d.copy()\<close>: a new object with the same items (a shallow copy)\<close>
  "dict_copy h d = (length h, h @ [h ! d])"

subsection \<open>Formatting a value inside an f-string\<close>

definition digit_char :: "nat \<Rightarrow> char" where
  "digit_char d = char_of (48 + d)"

fun dec_nat :: "nat \<Rightarrow> string" where
  "dec_nat n = (if n < 10 then [digit_char n] else dec_nat (n div 10) @ [digit_char (n mod 10)])"

declare dec_nat.simps [simp del]

definition py_str :: "pyval \<Rightarrow> string" where
  \<comment> \<open>\<open>str(v)\<close>, as \<open>f"{v}"\<close> formats it\<close>
  "py_str v = (case v of
      PStr s \<Rightarrow> s
    | PInt i \<Rightarrow> (if i < 0 then CHR ''-'' # dec_nat (nat (- i)) else dec_nat (nat i))
    | PNone \<Rightarrow> ''None'')"

section \<open>SecureEHRProcessor: anonymization\<close>

text \<open>
  The processor object keeps \<open>anonymization_map\<close>, the cache from a patient id to its
  pseudonym. (Its Fernet cipher plays no part in anonymization and is left out.)
\<close>

record SecureEHRProcessor =
  anonymization_map :: "pyval \<rightharpoonup> string"

definition sensitive_fields :: "string list" where
  "sensitive_fields = [''patient_id'', ''name'', ''ssn'', ''phone'', ''email'', ''address'']"

fun get_age_group :: "pyval \<Rightarrow> error + string" where
  \<comment> \<open>\<open>_get_age_group\<close>; comparing a string or \<open>None\<close> with an integer raises TypeError\<close>
  "get_age_group (PInt age) =
     Inr (if age < 18 then ''0-17''
          else if age < 30 then ''18-29''
          else if age < 50 then ''30-49''
          else if age < 70 then ''50-69''
          else ''70+'')"
| "get_age_group _ = Inl TypeError"

fun region_of :: "pyval \<Rightarrow> error + pyval" where
  \<comment> \<open>\<open>zip_code[:3] + "XX"\<close>; an integer or \<open>None\<close> cannot be sliced\<close>
  "region_of (PStr zip_code) = Inr (PStr (take 3 zip_code @ ''XX''))"
| "region_of _ = Inl TypeError"

definition remove_identifiers :: "pydict \<Rightarrow> pydict" where
  \<comment> \<open>\<open>for field in sensitive_fields: anonymized.pop(field, None)\<close>\<close>
  "remove_identifiers anonymized = fold (\<lambda>field d. d(field := None)) sensitive_fields anonymized"

definition generalize_age :: "pydict \<Rightarrow> error + pydict" where
  \<comment> \<open>\<open>if 'age' in anonymized: ...\<close>, on the items of \<open>anonymized\<close>\<close>
  "generalize_age anonymized =
     (case anonymized ''age'' of
        None \<Rightarrow> Inr anonymized
      | Some age \<Rightarrow>
          (case get_age_group age of
             Inl e \<Rightarrow> Inl e
           | Inr g \<Rightarrow> Inr ((anonymized(''age_group'' \<mapsto> PStr g))(''age'' := None))))"

definition generalize_zip_code :: "pydict \<Rightarrow> error + pydict" where
  \<comment> \<open>\<open>if 'zip_code' in anonymized: ...\<close>, on the items of \<open>anonymized\<close>\<close>
  "generalize_zip_code anonymized =
     (case anonymized ''zip_code'' of
        None \<Rightarrow> Inr anonymized
      | Some zip_code \<Rightarrow>
          (case region_of zip_code of
             Inl e \<Rightarrow> Inl e
           | Inr r \<Rightarrow> Inr ((anonymized(''region'' \<mapsto> r))(''zip_code'' := None))))"

definition source_identity :: "pydict \<Rightarrow> pyval" where
  \<comment> \<open>\<open>ehr_data.get('patient_id', '')\<close>\<close>
  "source_identity ehr = (case ehr ''patient_id'' of None \<Rightarrow> PStr '''' | Some v \<Rightarrow> v)"

definition cache_pseudonym ::
  "(string \<Rightarrow> string) \<Rightarrow> string \<Rightarrow> SecureEHRProcessor \<Rightarrow> pyval \<Rightarrow> SecureEHRProcessor" where
  \<comment> \<open>\<open>if patient_id not in self.anonymization_map: self.anonymization_map[patient_id] = ...\<close>\<close>
  "cache_pseudonym sha256_hexdigest now self patient_id =
     (if anonymization_map self patient_id = None
      then self\<lparr>anonymization_map := (anonymization_map self)
             (patient_id \<mapsto> take 16 (sha256_hexdigest (py_str patient_id @ ''_'' @ now)))\<rparr>
      else self)"

text \<open>
  \<open>anonymize_patient_data\<close>. The SHA-256 hex digest is a parameter (a function of the
  text hashed), and so is the reading \<open>now\<close> of the clock, \<open>datetime.now().isoformat()\<close>.
  Every statement that mutates \<open>anonymized\<close> writes the object at that reference.
  The result is the outcome (the reference of the new dictionary, or the exception), the
  processor and the store as the call leaves them: an exception raised while the
  quasi-identifiers are generalized leaves the cache entry and the copy behind.
\<close>

definition anonymize_patient_data ::
  "(string \<Rightarrow> string) \<Rightarrow> string \<Rightarrow> SecureEHRProcessor \<Rightarrow> heap \<Rightarrow> nat
     \<Rightarrow> (error + nat) \<times> SecureEHRProcessor \<times> heap" where
  "anonymize_patient_data sha256_hexdigest now self h ehr_data =
    (let (anonymized, h1) = dict_copy h ehr_data;
         patient_id = source_identity (h1 ! ehr_data);
         self1 = cache_pseudonym sha256_hexdigest now self patient_id
     in case anonymization_map self1 patient_id of
          None \<Rightarrow> (Inl KeyError, self1, h1)
        | Some anonymous_id \<Rightarrow>
           (let h2 = h1[anonymized := (h1 ! anonymized)(''anonymous_id'' \<mapsto> PStr anonymous_id)];
                h3 = h2[anonymized := remove_identifiers (h2 ! anonymized)]
            in case generalize_age (h3 ! anonymized) of
                 Inl e \<Rightarrow> (Inl e, self1, h3)
               | Inr with_age_group \<Rightarrow>
                  (let h4 = h3[anonymized := with_age_group]
                   in case generalize_zip_code (h4 ! anonymized) of
                        Inl e \<Rightarrow> (Inl e, self1, h4)
                      | Inr with_region \<Rightarrow>
                          (Inr anonymized, self1, h4[anonymized := with_region]))))"

text \<open>
  A sequence of calls on one processor, each with its own clock reading and argument;
  the outcomes of the calls are dropped, the processor and the store are threaded through.
\<close>

fun anonymize_calls ::
  "(string \<Rightarrow> string) \<Rightarrow> SecureEHRProcessor \<Rightarrow> heap \<Rightarrow> (string \<times> nat) list
     \<Rightarrow> SecureEHRProcessor \<times> heap" where
  "anonymize_calls H self h [] = (self, h)"
| "anonymize_calls H self h ((now, d) # calls) =
     (case anonymize_patient_data H now self h d of
        (_, self', h') \<Rightarrow> anonymize_calls H self' h' calls)"

text \<open>
  The records on which the generalization cannot raise: an age, when present, is an
  integer and a zip code, when present, is a string.
\<close>

definition well_typed :: "pydict \<Rightarrow> bool" where
  "well_typed d \<longleftrightarrow>
     (case d ''age'' of None \<Rightarrow> True | Some (PInt _) \<Rightarrow> True | Some _ \<Rightarrow> False) \<and>
     (case d ''zip_code'' of None \<Rightarrow> True | Some (PStr _) \<Rightarrow> True | Some _ \<Rightarrow> False)"

text \<open>Two records and a new processor, for the runs the theorems below are checked on.\<close>

definition sample_record :: pydict where
  "sample_record = [''patient_id'' \<mapsto> PInt 7, ''name'' \<mapsto> PStr ''Ann'', ''age'' \<mapsto> PInt 40,
     ''zip_code'' \<mapsto> PStr ''12345'', ''gender'' \<mapsto> PStr ''female'']"

definition sample_record_no_id :: pydict where
  "sample_record_no_id = [''age'' \<mapsto> PInt 40, ''gender'' \<mapsto> PStr ''female'']"

definition fresh_processor :: SecureEHRProcessor where
  "fresh_processor = \<lparr>anonymization_map = Map.empty\<rparr>"

section \<open>MedicalImageEncryption: encrypting and decrypting an image\<close>

type_synonym bytes = "8 word list"

text \<open>
  The primitives of \<open>hashlib\<close>, \<open>hmac\<close>, \<open>base64\<close> and \<open>cryptography\<close> are not part of the
  program; the model takes them as a record of functions. A cipher operation can raise
  (a key or an initialization vector of the wrong size, data that is not a whole number
  of blocks), and so can the decoding of base64 text.
\<close>

record crypto_lib =
  sha256_digest :: "bytes \<Rightarrow> bytes"
  pbkdf2_hmac_sha256 :: "bytes \<Rightarrow> bytes \<Rightarrow> nat \<Rightarrow> nat \<Rightarrow> bytes"
  hmac_sha256_hexdigest :: "bytes \<Rightarrow> bytes \<Rightarrow> string"
  aes_cbc_encrypt :: "bytes \<Rightarrow> bytes \<Rightarrow> bytes \<Rightarrow> error + bytes"
  aes_cbc_decrypt :: "bytes \<Rightarrow> bytes \<Rightarrow> bytes \<Rightarrow> error + bytes"
  b64encode :: "bytes \<Rightarrow> string"
  b64decode :: "string \<Rightarrow> error + bytes"

definition is_ascii :: "string \<Rightarrow> bool" where
  "is_ascii s = list_all (\<lambda>c. (of_char c :: nat) < 128) s"

text \<open>
  What the theorems assume of the primitives: under a 32-byte key and a 16-byte
  initialization vector, CBC encryption of whole blocks succeeds and decryption inverts
  it; the derived key has the length asked for; decoding inverts encoding; a hex digest
  is ASCII text.
\<close>

definition crypto_lib_ok :: "crypto_lib \<Rightarrow> bool" where
  "crypto_lib_ok L \<longleftrightarrow>
     (\<forall>key iv blocks. length key = 32 \<and> length iv = 16 \<and> length blocks mod 16 = 0 \<longrightarrow>
        (\<exists>c. aes_cbc_encrypt L key iv blocks = Inr c \<and> aes_cbc_decrypt L key iv c = Inr blocks))
   \<and> (\<forall>password salt n. length (pbkdf2_hmac_sha256 L password salt n 32) = 32)
   \<and> (\<forall>x. b64decode L (b64encode L x) = Inr x)
   \<and> (\<forall>key msg. is_ascii (hmac_sha256_hexdigest L key msg))"

record MedicalImageEncryption =
  master_key :: bytes

definition key_size :: nat where
  "key_size = 256 div 8"

definition str_encode :: "string \<Rightarrow> bytes" where
  \<comment> \<open>\<open>s.encode()\<close>; a \<open>string\<close> is already a sequence of bytes\<close>
  "str_encode s = map of_char s"

definition generate_image_key :: "crypto_lib \<Rightarrow> MedicalImageEncryption \<Rightarrow> string \<Rightarrow> bytes" where
  "generate_image_key L self image_id =
     (let salt = sha256_digest L (str_encode image_id)
      in pbkdf2_hmac_sha256 L (master_key self) salt 100000 key_size)"

definition pad_data :: "bytes \<Rightarrow> bytes" where
  \<comment> \<open>\<open>_pad_data\<close>\<close>
  "pad_data data =
     (let block_size = 16;
          padding_length = block_size - (length data mod block_size);
          padding = replicate padding_length (of_nat padding_length)
      in data @ padding)"

definition unpad_data :: "bytes \<Rightarrow> error + bytes" where
  \<comment> \<open>\<open>_unpad_data\<close>: \<open>padded_data[-1]\<close> raises on empty data; the slice \<open>[:-n]\<close> is
      empty for \<open>n = 0\<close> and for \<open>n\<close> beyond the length\<close>
  "unpad_data padded_data =
     (if padded_data = [] then Inl IndexError
      else let padding_length = unat (last padded_data)
           in Inr (if padding_length = 0 then []
                   else take (length padded_data - padding_length) padded_data))"

record encrypted_package =
  encrypted_data :: string
  iv :: string
  integrity_hash :: string
  encryption_algorithm :: string
  timestamp :: string
  image_id :: string

definition integrity_failure :: error where
  "integrity_failure = ValueError ''Image integrity verification failed''"

definition compare_digest :: "string \<Rightarrow> string \<Rightarrow> error + bool" where
  \<comment> \<open>\<open>hmac.compare_digest\<close> on two \<open>str\<close>: TypeError unless both are ASCII\<close>
  "compare_digest a b = (if is_ascii a \<and> is_ascii b then Inr (a = b) else Inl TypeError)"

text \<open>
  \<open>encrypt_dicom_image\<close>. The 16 random bytes of \<open>np.random.bytes(16)\<close> and the clock
  reading are inputs. The \<open>except\<close> clause logs and raises again, so every exception
  reaches the caller as it is.
\<close>

definition encrypt_dicom_image ::
  "crypto_lib \<Rightarrow> MedicalImageEncryption \<Rightarrow> string \<Rightarrow> bytes \<Rightarrow> bytes \<Rightarrow> string
     \<Rightarrow> error + encrypted_package" where
  "encrypt_dicom_image L self now random_iv dicom_data img_id =
     (let image_key = generate_image_key L self img_id;
          padded_data = pad_data dicom_data
      in case aes_cbc_encrypt L image_key random_iv padded_data of
           Inl e \<Rightarrow> Inl e
         | Inr ciphertext \<Rightarrow>
             Inr \<lparr>encrypted_data = b64encode L ciphertext,
                  iv = b64encode L random_iv,
                  integrity_hash = hmac_sha256_hexdigest L image_key ciphertext,
                  encryption_algorithm = ''AES-256-CBC'',
                  timestamp = now,
                  image_id = img_id\<rparr>)"

definition decrypt_dicom_image ::
  "crypto_lib \<Rightarrow> MedicalImageEncryption \<Rightarrow> encrypted_package \<Rightarrow> string \<Rightarrow> error + bytes" where
  "decrypt_dicom_image L self encrypted_package img_id =
     (case b64decode L (encrypted_data encrypted_package) of
        Inl e \<Rightarrow> Inl e
      | Inr ciphertext \<Rightarrow>
         (case b64decode L (iv encrypted_package) of
            Inl e \<Rightarrow> Inl e
          | Inr iv_bytes \<Rightarrow>
             (let stored_hash = integrity_hash encrypted_package;
                  image_key = generate_image_key L self img_id;
                  computed_hash = hmac_sha256_hexdigest L image_key ciphertext
              in case compare_digest stored_hash computed_hash of
                   Inl e \<Rightarrow> Inl e
                 | Inr equal \<Rightarrow>
                     if \<not> equal then Inl integrity_failure
                     else (case aes_cbc_decrypt L image_key iv_bytes ciphertext of
                             Inl e \<Rightarrow> Inl e
                           | Inr padded_data \<Rightarrow> unpad_data padded_data))))"

text \<open>
  A small instance of the library interface, on which the assumptions can be checked:
  the cipher adds one to every byte, the key derivation returns zero bytes, the digest
  writes one character per byte of the message, and the text encoding is the identity
  on bytes.
\<close>

definition toy_lib :: crypto_lib where
  "toy_lib =
     \<lparr>sha256_digest = (\<lambda>x. x),
      pbkdf2_hmac_sha256 = (\<lambda>password salt n dklen. replicate dklen 0),
      hmac_sha256_hexdigest = (\<lambda>key msg. map (\<lambda>b. if b = 0 then CHR ''0'' else CHR ''1'') msg),
      aes_cbc_encrypt = (\<lambda>key iv x. Inr (map (\<lambda>b. b + 1) x)),
      aes_cbc_decrypt = (\<lambda>key iv x. Inr (map (\<lambda>b. b - 1) x)),
      b64encode = (\<lambda>x. map (\<lambda>b. char_of (unat b)) x),
      b64decode = (\<lambda>s. Inr (map of_char s))\<rparr>"

text \<open>
  A second instance, closer to what the real libraries leave open. The cipher combines
  the first block with the initialization vector, as CBC chaining does (the block cipher
  itself is left out); the digest writes two letters for every byte of the message, so
  that two different messages never have the same digest; the text encoding ends in a
  padding character that the decoder does not read, as the decoder of Python does not
  read the unused low bits of the last character before the padding.
\<close>

definition first_block_with :: "(8 word \<Rightarrow> 8 word \<Rightarrow> 8 word) \<Rightarrow> bytes \<Rightarrow> bytes \<Rightarrow> bytes" where
  "first_block_with f v x = map2 f (take 16 x) v @ drop 16 x"

definition two_letters :: "8 word \<Rightarrow> string" where
  "two_letters b = [char_of (65 + unat b div 16), char_of (65 + unat b mod 16)]"

definition lenient_lib :: crypto_lib where
  "lenient_lib =
     \<lparr>sha256_digest = (\<lambda>x. x),
      pbkdf2_hmac_sha256 = (\<lambda>password salt n dklen. replicate dklen 0),
      hmac_sha256_hexdigest = (\<lambda>key msg. concat (map two_letters msg)),
      aes_cbc_encrypt = (\<lambda>key v x. Inr (first_block_with (+) v x)),
      aes_cbc_decrypt = (\<lambda>key v x. Inr (first_block_with (-) v x)),
      b64encode = (\<lambda>x. map (\<lambda>b. char_of (unat b)) x @ ''=''),
      b64decode = (\<lambda>s. Inr (map of_char (butlast s)))\<rparr>"

text \<open>
  A key, a payload of one block and an initialization vector, with the ciphertext and
  the package that encryption makes of them under \<open>lenient_lib\<close>: the payload and its
  block of padding (sixteen bytes 16), the first block with the initialization vector
  added.
\<close>

definition sample_key :: MedicalImageEncryption where
  "sample_key = \<lparr>master_key = [1, 2, 3]\<rparr>"

definition sample_payload :: bytes where
  "sample_payload = [1, 2, 3, 4, 5, 6, 7, 8, 9, 10, 11, 12, 13, 14, 15, 16]"

definition sample_iv :: bytes where
  "sample_iv = [7, 7, 7, 7, 7, 7, 7, 7, 7, 7, 7, 7, 7, 7, 7, 7]"

definition sample_ciphertext :: bytes where
  "sample_ciphertext =
     [8, 9, 10, 11, 12, 13, 14, 15, 16, 17, 18, 19, 20, 21, 22, 23,
      16, 16, 16, 16, 16, 16, 16, 16, 16, 16, 16, 16, 16, 16, 16, 16]"

definition sample_package :: encrypted_package where
  "sample_package =
     \<lparr>encrypted_data = b64encode lenient_lib sample_ciphertext,
      iv = b64encode lenient_lib sample_iv,
      integrity_hash = hmac_sha256_hexdigest lenient_lib (replicate 32 0) sample_ciphertext,
      encryption_algorithm = ''AES-256-CBC'',
      timestamp = ''2026-11-04T10:00:00'',
      image_id = ''img-1''\<rparr>"

section \<open>FederatedEHRModel: federated averaging and the training round\<close>

subsection \<open>Arrays\<close>

text \<open>
  A numpy array of floats is its shape and its elements in row-major order. The elements
  are rational numbers: the arithmetic is exact. The element type of the array is not
  part of the model, nor is the rounding of 32-bit and 64-bit floats or their overflow to
  infinity, so what is proved below of the numbers in an array holds of the code up to
  rounding only; what is proved of shapes, of exceptions raised on shapes and of the
  state of the model does not depend on the numbers. Arrays of integers are not values
  of this type (numpy refuses to add a float array into an integer array in place). An
  array is well formed when it has as many elements as its shape says.
\<close>

record ndarray =
  shape :: "nat list"
  data :: "rat list"

definition well_formed :: "ndarray \<Rightarrow> bool" where
  "well_formed a \<longleftrightarrow> length (data a) = prod_list (shape a)"

definition zeros_like :: "ndarray \<Rightarrow> ndarray" where
  \<comment> \<open>\<open>np.zeros_like(a)\<close>\<close>
  "zeros_like a = \<lparr>shape = shape a, data = replicate (length (data a)) 0\<rparr>"

definition scale :: "rat \<Rightarrow> ndarray \<Rightarrow> ndarray" where
  \<comment> \<open>\<open>weight * a\<close>, a scalar times an array\<close>
  "scale weight a = \<lparr>shape = shape a, data = map (\<lambda>x. weight * x) (data a)\<rparr>"

text \<open>
  \<open>a += b\<close> keeps the shape of \<open>a\<close> and broadcasts \<open>b\<close> to it: the shape of \<open>b\<close> is
  aligned with the shape of \<open>a\<close> from the right and padded with ones on the left, and
  every dimension of \<open>b\<close> must be the dimension of \<open>a\<close> or one, along which \<open>b\<close> is
  repeated. Otherwise numpy raises ValueError.
\<close>

definition pad_shape :: "nat \<Rightarrow> nat list \<Rightarrow> nat list" where
  "pad_shape n s = replicate (n - length s) 1 @ s"

definition broadcastable :: "nat list \<Rightarrow> nat list \<Rightarrow> bool" where
  "broadcastable target s \<longleftrightarrow>
     length s \<le> length target \<and>
     list_all2 (\<lambda>n m. m = n \<or> m = 1) target (pad_shape (length target) s)"

fun broadcast_to :: "nat list \<Rightarrow> nat list \<Rightarrow> rat list \<Rightarrow> rat list" where
  "broadcast_to (n # target) (m # s) xs =
     (if m = n
      then concat (map (\<lambda>i. broadcast_to target s (take (prod_list s) (drop (i * prod_list s) xs)))
                    [0..<n])
      else concat (replicate n (broadcast_to target s xs)))"
| "broadcast_to _ _ xs = xs"

definition broadcast_error :: error where
  "broadcast_error = ValueError ''operands could not be broadcast together''"

definition iadd :: "ndarray \<Rightarrow> ndarray \<Rightarrow> error + ndarray" where
  \<comment> \<open>\<open>a += b\<close>\<close>
  "iadd a b =
     (if broadcastable (shape a) (shape b)
      then Inr \<lparr>shape = shape a,
                data = map2 (+) (data a)
                         (broadcast_to (shape a) (pad_shape (length (shape a)) (shape b)) (data b))\<rparr>
      else Inl broadcast_error)"

subsection \<open>Federated averaging\<close>

text \<open>
  The inner loop of \<open>_federated_averaging\<close>, over \<open>enumerate(client_weights)\<close> from
  position \<open>client_idx\<close> on. A statement raises where Python does: \<open>client_sizes[client_idx]\<close>
  and \<open>weights[layer_idx]\<close> out of range, the division by a zero total, the addition of
  an array that cannot be broadcast.
\<close>

fun accumulate_clients ::
  "int list \<Rightarrow> int \<Rightarrow> nat \<Rightarrow> nat \<Rightarrow> ndarray list list \<Rightarrow> ndarray \<Rightarrow> error + ndarray" where
  "accumulate_clients client_sizes total_size layer_idx client_idx [] layer_avg = Inr layer_avg"
| "accumulate_clients client_sizes total_size layer_idx client_idx (weights # rest) layer_avg =
     (if length client_sizes \<le> client_idx then Inl IndexError
      else if total_size = 0 then Inl ZeroDivisionError
      else let weight = of_int (client_sizes ! client_idx) / of_int total_size
           in if length weights \<le> layer_idx then Inl IndexError
              else case iadd layer_avg (scale weight (weights ! layer_idx)) of
                     Inl e \<Rightarrow> Inl e
                   | Inr layer_avg' \<Rightarrow>
                       accumulate_clients client_sizes total_size layer_idx (Suc client_idx) rest
                         layer_avg')"

text \<open>The outer loop, over the layer indices still to do; \<open>first\<close> is \<open>client_weights[0]\<close>.\<close>

fun average_layers ::
  "ndarray list list \<Rightarrow> int list \<Rightarrow> int \<Rightarrow> ndarray list \<Rightarrow> nat list \<Rightarrow> error + ndarray list" where
  "average_layers client_weights client_sizes total_size first [] = Inr []"
| "average_layers client_weights client_sizes total_size first (layer_idx # layers) =
     (case accumulate_clients client_sizes total_size layer_idx 0 client_weights
             (zeros_like (first ! layer_idx)) of
        Inl e \<Rightarrow> Inl e
      | Inr layer_avg \<Rightarrow>
          (case average_layers client_weights client_sizes total_size first layers of
             Inl e \<Rightarrow> Inl e
           | Inr avg_weights \<Rightarrow> Inr (layer_avg # avg_weights)))"

definition federated_averaging :: "ndarray list list \<Rightarrow> int list \<Rightarrow> error + ndarray list" where
  \<comment> \<open>\<open>_federated_averaging\<close>; \<open>client_weights[0]\<close> raises on an empty list\<close>
  "federated_averaging client_weights client_sizes =
     (let total_size = sum_list client_sizes
      in case client_weights of
           [] \<Rightarrow> Inl IndexError
         | first # _ \<Rightarrow>
             average_layers client_weights client_sizes total_size first [0..<length first])"

subsection \<open>The training round\<close>

record FederatedClient =
  client_id :: string
  institution_name :: string
  public_key :: string
  data_hash :: string
  last_update :: string
  model_version :: string

text \<open>
  A client update is the dictionary with the keys \<open>model_weights\<close> and \<open>data_size\<close> and,
  optionally, \<open>performance\<close>, itself a dictionary read with \<open>get('accuracy', 0)\<close> and
  \<open>get('loss', 0)\<close>.
\<close>

record client_performance =
  perf_accuracy :: "rat option"
  perf_loss :: "rat option"

record client_update =
  model_weights :: "ndarray list"
  data_size :: int
  performance :: "client_performance option"

datatype pyfloat = Finite rat | Infinity

text \<open>
  The dictionary \<open>_evaluate_global_model\<close> returns (its key \<open>timestamp\<close> is the field
  \<open>evaluated_at\<close> here).
\<close>

record performance_snapshot =
  accuracy :: rat
  loss :: pyfloat
  participating_clients :: nat
  total_samples :: int
  evaluated_at :: string

text \<open>
  The model object: the registry of clients, the weights of the global Keras model, the
  round counter and the history.
\<close>

record FederatedEHRModel =
  clients :: "string \<rightharpoonup> FederatedClient"
  global_model :: "ndarray list"
  current_round :: nat
  performance_history :: "performance_snapshot list"

definition register_client :: "FederatedEHRModel \<Rightarrow> FederatedClient \<Rightarrow> FederatedEHRModel" where
  "register_client self client = self\<lparr>clients := (clients self)(client_id client \<mapsto> client)\<rparr>"

text \<open>
  \<open>global_model.set_weights\<close> belongs to Keras: it takes a list with one array per weight
  of the model, each of the shape of that weight, and raises ValueError on any other
  list. The definition is the one of \<open>tf.keras\<close> in the TensorFlow 2 releases that
  \<open>tensorflow_federated\<close>, imported by the module, runs with: it compares the count and
  every shape before it assigns anything. (Keras 3 assigns the arrays one by one and
  stops at the first whose shape differs, leaving the earlier ones assigned; that is not
  what is written here.) No theorem below depends on the branch that raises.
\<close>

definition set_weights :: "ndarray list \<Rightarrow> ndarray list \<Rightarrow> error + ndarray list" where
  "set_weights model weights =
     (if map shape weights = map shape model then Inr weights
      else Inl (ValueError ''weights do not match the model''))"

definition get_accuracy :: "client_performance \<Rightarrow> rat" where
  \<comment> \<open>\<open>perf.get('accuracy', 0)\<close>\<close>
  "get_accuracy perf = (case perf_accuracy perf of None \<Rightarrow> 0 | Some a \<Rightarrow> a)"

definition get_loss :: "client_performance \<Rightarrow> rat" where
  \<comment> \<open>\<open>perf.get('loss', 0)\<close>\<close>
  "get_loss perf = (case perf_loss perf of None \<Rightarrow> 0 | Some l \<Rightarrow> l)"

fun sum_metrics :: "(string \<times> client_update) list \<Rightarrow> rat \<times> rat \<times> int \<Rightarrow> rat \<times> rat \<times> int" where
  \<comment> \<open>the loop of \<open>_evaluate_global_model\<close> over \<open>client_updates.items()\<close>\<close>
  "sum_metrics [] totals = totals"
| "sum_metrics ((cid, update) # rest) (total_accuracy, total_loss, sample_total) =
     (case performance update of
        None \<Rightarrow> sum_metrics rest (total_accuracy, total_loss, sample_total)
      | Some perf \<Rightarrow>
          (let samples = data_size update
           in sum_metrics rest
                (total_accuracy + get_accuracy perf * of_int samples,
                 total_loss + get_loss perf * of_int samples,
                 sample_total + samples)))"

definition evaluate_global_model ::
  "string \<Rightarrow> (string \<times> client_update) list \<Rightarrow> performance_snapshot" where
  \<comment> \<open>\<open>_evaluate_global_model\<close>; \<open>now\<close> is \<open>datetime.utcnow().isoformat()\<close>\<close>
  "evaluate_global_model now client_updates =
     (case sum_metrics client_updates (0, 0, 0) of
        (total_accuracy, total_loss, samples) \<Rightarrow>
          (let (avg_accuracy, avg_loss) =
                 (if samples > 0
                  then (total_accuracy / of_int samples, Finite (total_loss / of_int samples))
                  else (0, Infinity))
           in \<lparr>accuracy = avg_accuracy,
               loss = avg_loss,
               participating_clients = length client_updates,
               total_samples = samples,
               evaluated_at = now\<rparr>))"

text \<open>
  What \<open>federated_training_round\<close> returns: \<open>{"status": "failed", "reason": ...}\<close> or
  \<open>{"status": "success", "round": ..., "performance": ..., "global_model_weights": ...}\<close>.
\<close>

datatype round_result =
    Failed string
  | Success nat performance_snapshot "ndarray list"

fun status :: "round_result \<Rightarrow> string" where
  "status (Failed reason) = ''failed''"
| "status (Success n snapshot weights) = ''success''"

definition collected :: "FederatedEHRModel \<Rightarrow> (string \<times> client_update) list \<Rightarrow> client_update list" where
  \<comment> \<open>the updates of the clients in \<open>self.clients\<close>, in the order of the dictionary\<close>
  "collected self client_updates =
     map snd (filter (\<lambda>(cid, update). clients self cid \<noteq> None) client_updates)"

text \<open>The metrics an update reports, zero for the ones it does not report.\<close>

definition local_accuracy :: "client_update \<Rightarrow> rat" where
  "local_accuracy update = (case performance update of None \<Rightarrow> 0 | Some perf \<Rightarrow> get_accuracy perf)"

definition local_loss :: "client_update \<Rightarrow> rat" where
  "local_loss update = (case performance update of None \<Rightarrow> 0 | Some perf \<Rightarrow> get_loss perf)"

text \<open>
  The aggregate and the snapshot as the specification words them: the weight of a client
  is its sample count over the sum of all sample counts, the aggregate is, at each tensor
  position and each element, the sum over the clients of weight times value, and the
  snapshot averages the reported metrics with the same weights.
\<close>

definition client_weight :: "client_update list \<Rightarrow> client_update \<Rightarrow> rat" where
  "client_weight updates u = of_int (data_size u) / of_int (sum_list (map data_size updates))"

definition aggregate_spec :: "client_update list \<Rightarrow> ndarray list" where
  "aggregate_spec updates =
     map (\<lambda>i. \<lparr>shape = shape (model_weights (hd updates) ! i),
               data = map (\<lambda>k. \<Sum>u\<leftarrow>updates. client_weight updates u * data (model_weights u ! i) ! k)
                        [0..<prod_list (shape (model_weights (hd updates) ! i))]\<rparr>)
       [0..<length (model_weights (hd updates))]"

definition snapshot_spec :: "string \<Rightarrow> client_update list \<Rightarrow> performance_snapshot" where
  "snapshot_spec now updates =
     \<lparr>accuracy = (\<Sum>u\<leftarrow>updates. client_weight updates u * local_accuracy u),
      loss = Finite (\<Sum>u\<leftarrow>updates. client_weight updates u * local_loss u),
      participating_clients = length updates,
      total_samples = sum_list (map data_size updates),
      evaluated_at = now\<rparr>"

text \<open>
  \<open>federated_training_round\<close>. \<open>client_updates\<close> is the dictionary in its iteration order.
  The function has no exception handler: an exception of the averaging or of
  \<open>set_weights\<close> reaches the caller, and the model is as it was when the exception was
  raised.
\<close>

definition federated_training_round ::
  "string \<Rightarrow> FederatedEHRModel \<Rightarrow> (string \<times> client_update) list
     \<Rightarrow> (error + round_result) \<times> FederatedEHRModel" where
  "federated_training_round now self client_updates =
     (let client_weights = map model_weights (collected self client_updates);
          client_sizes = map data_size (collected self client_updates)
      in if client_weights = [] then (Inr (Failed ''no_updates''), self)
         else case federated_averaging client_weights client_sizes of
                Inl e \<Rightarrow> (Inl e, self)
              | Inr global_weights \<Rightarrow>
                 (case set_weights (global_model self) global_weights of
                    Inl e \<Rightarrow> (Inl e, self)
                  | Inr new_model \<Rightarrow>
                     (let performance = evaluate_global_model now client_updates;
                          self' = self\<lparr>global_model := new_model,
                                       performance_history := performance_history self @ [performance],
                                       current_round := current_round self + 1\<rparr>
                      in (Inr (Success (current_round self') performance global_weights), self'))))"

text \<open>Two registered clients, vectors, a model before its first round and an update with its metrics,
  for the rounds the theorems below are checked on.\<close>

definition hospital_a :: FederatedClient where
  "hospital_a = \<lparr>client_id = ''hospital_a'', institution_name = ''Hospital A'', public_key = ''pk_a'',
     data_hash = ''h_a'', last_update = ''2026-11-01T00:00:00'', model_version = ''v0''\<rparr>"

definition hospital_b :: FederatedClient where
  "hospital_b = \<lparr>client_id = ''hospital_b'', institution_name = ''Hospital B'', public_key = ''pk_b'',
     data_hash = ''h_b'', last_update = ''2026-11-01T00:00:00'', model_version = ''v0''\<rparr>"

definition vec :: "rat list \<Rightarrow> ndarray" where
  "vec xs = \<lparr>shape = [length xs], data = xs\<rparr>"

definition initial_model :: "ndarray list \<Rightarrow> FederatedEHRModel" where
  "initial_model weights =
     \<lparr>clients = Map.empty, global_model = weights, current_round = 0, performance_history = []\<rparr>"

definition reported :: "ndarray list \<Rightarrow> int \<Rightarrow> rat \<Rightarrow> rat \<Rightarrow> client_update" where
  "reported weights n acc l =
     \<lparr>model_weights = weights, data_size = n,
      performance = Some \<lparr>perf_accuracy = Some acc, perf_loss = Some l\<rparr>\<rparr>"


section \<open>Properties of the anonymization\<close>

lemma anonymize_steps:
  assumes "d < length h"
  shows "anonymize_patient_data H now self h d =
    (let self1 = cache_pseudonym H now self (source_identity (h ! d))
     in case anonymization_map self1 (source_identity (h ! d)) of
          None \<Rightarrow> (Inl KeyError, self1, h @ [h ! d])
        | Some v \<Rightarrow>
           (let d3 = remove_identifiers ((h ! d)(''anonymous_id'' \<mapsto> PStr v))
            in case generalize_age d3 of
                 Inl e \<Rightarrow> (Inl e, self1, h @ [d3])
               | Inr d4 \<Rightarrow> (case generalize_zip_code d4 of
                     Inl e \<Rightarrow> (Inl e, self1, h @ [d4])
                   | Inr d5 \<Rightarrow> (Inr (length h), self1, h @ [d5]))))"
  unfolding anonymize_patient_data_def dict_copy_def
  using assms
  by (simp add: nth_append Let_def del: fun_upd_apply split: option.split sum.split)

lemma cache_pseudonym_defined:
  "anonymization_map (cache_pseudonym H now self pid) pid \<noteq> None"
  by (simp add: cache_pseudonym_def)

lemma cache_pseudonym_keeps:
  "anonymization_map self k = Some v \<Longrightarrow> anonymization_map (cache_pseudonym H now self pid) k = Some v"
  by (auto simp: cache_pseudonym_def)

lemma remove_identifiers_apply:
  "remove_identifiers d k = (if k \<in> set sensitive_fields then None else d k)"
  by (simp add: remove_identifiers_def sensitive_fields_def)

lemma generalize_age_keeps:
  "generalize_age d = Inr d' \<Longrightarrow> k \<noteq> ''age'' \<Longrightarrow> k \<noteq> ''age_group'' \<Longrightarrow> d' k = d k"
  by (auto simp: generalize_age_def split: option.splits sum.splits)

lemma generalize_age_no_age:
  "generalize_age d = Inr d' \<Longrightarrow> d ''age'' = None \<Longrightarrow> d' = d"
  by (auto simp: generalize_age_def split: option.splits sum.splits)

lemma generalize_zip_code_keeps:
  "generalize_zip_code d = Inr d' \<Longrightarrow> k \<noteq> ''zip_code'' \<Longrightarrow> k \<noteq> ''region'' \<Longrightarrow> d' k = d k"
  by (auto simp: generalize_zip_code_def split: option.splits sum.splits)

lemma generalize_zip_code_no_zip:
  "generalize_zip_code d = Inr d' \<Longrightarrow> d ''zip_code'' = None \<Longrightarrow> d' = d"
  by (auto simp: generalize_zip_code_def split: option.splits sum.splits)

lemma generalize_age_well_typed:
  "(case d ''age'' of None \<Rightarrow> True | Some (PInt _) \<Rightarrow> True | Some _ \<Rightarrow> False)
     \<Longrightarrow> \<exists>d'. generalize_age d = Inr d'"
  by (auto simp: generalize_age_def split: option.splits pyval.splits)

lemma generalize_zip_code_well_typed:
  "(case d ''zip_code'' of None \<Rightarrow> True | Some (PStr _) \<Rightarrow> True | Some _ \<Rightarrow> False)
     \<Longrightarrow> \<exists>d'. generalize_zip_code d = Inr d'"
  by (auto simp: generalize_zip_code_def split: option.splits pyval.splits)

text \<open>What a successful call returns.\<close>

lemma anonymize_returns:
  assumes "d < length h"
    and "anonymize_patient_data H now self h d = (Inr out, self', h')"
  obtains v d4 d5 where
    "out = length h" "self' = cache_pseudonym H now self (source_identity (h ! d))"
    "anonymization_map self' (source_identity (h ! d)) = Some v"
    "generalize_age (remove_identifiers ((h ! d)(''anonymous_id'' \<mapsto> PStr v))) = Inr d4"
    "generalize_zip_code d4 = Inr d5"
    "h' = h @ [d5]"
  using assms(2) unfolding anonymize_steps [OF assms(1)] Let_def
  by (auto split: option.splits sum.splits)

lemma anonymize_frame:
  assumes "d < length h"
    and "anonymize_patient_data H now self h d = (res, self', h')"
  shows "length h' = Suc (length h) \<and> take (length h) h' = h
     \<and> self' = cache_pseudonym H now self (source_identity (h ! d))"
  using assms(2) unfolding anonymize_steps [OF assms(1)] Let_def
  by (auto split: option.splits sum.splits)

lemma anonymize_effect:
  assumes "anonymize_patient_data H now self h d = (res, self', h')"
  shows "\<exists>pid x. self' = cache_pseudonym H now self pid \<and> h' = h @ [x]"
  using assms unfolding anonymize_patient_data_def dict_copy_def Let_def
  by (auto simp del: fun_upd_apply split: option.splits sum.splits)

lemma anonymize_cache_grows:
  assumes "anonymize_patient_data H now self h d = (res, self', h')"
    and "anonymization_map self k = Some v"
  shows "anonymization_map self' k = Some v"
  using anonymize_effect [OF assms(1)] assms(2) by (auto simp: cache_pseudonym_keeps)

lemma anonymize_calls_effect:
  assumes "anonymize_calls H self h calls = (self', h')"
  shows "(anonymization_map self k = Some v \<longrightarrow> anonymization_map self' k = Some v)
       \<and> length h \<le> length h' \<and> take (length h) h' = h"
  using assms
proof (induction calls arbitrary: self h)
  case Nil
  then show ?case by simp
next
  case (Cons c calls)
  obtain now d where c: "c = (now, d)" by (cases c)
  obtain res self1 h1 where step: "anonymize_patient_data H now self h d = (res, self1, h1)"
    by (cases "anonymize_patient_data H now self h d")
  from Cons.prems c step have rest: "anonymize_calls H self1 h1 calls = (self', h')" by simp
  from anonymize_effect [OF step] obtain x where h1: "h1 = h @ [x]" by blast
  from Cons.IH [OF rest] have
    a: "anonymization_map self1 k = Some v \<longrightarrow> anonymization_map self' k = Some v"
    and b: "length h1 \<le> length h'" and t: "take (length h1) h' = h1" by auto
  have "take (length h) h' = take (length h) (take (length h1) h')"
    using h1 by (simp add: min_def)
  also have "\<dots> = h" using t h1 by simp
  finally have "take (length h) h' = h" .
  with a b h1 anonymize_cache_grows [OF step] show ?case by auto
qed

lemma anonymous_id_of_result:
  assumes "d < length h"
    and "anonymize_patient_data H now self h d = (Inr out, self', h')"
  shows "\<exists>v. anonymization_map self' (source_identity (h ! d)) = Some v
            \<and> (h' ! out) ''anonymous_id'' = Some (PStr v) \<and> out = length h \<and> length h' = Suc (length h)"
proof -
  from anonymize_returns [OF assms] obtain v d4 d5 where
    r: "out = length h" "anonymization_map self' (source_identity (h ! d)) = Some v"
    "generalize_age (remove_identifiers ((h ! d)(''anonymous_id'' \<mapsto> PStr v))) = Inr d4"
    "generalize_zip_code d4 = Inr d5" "h' = h @ [d5]"
    by metis
  have "d5 ''anonymous_id'' = d4 ''anonymous_id''"
    using generalize_zip_code_keeps [OF r(4)] by simp
  also have "\<dots> = remove_identifiers ((h ! d)(''anonymous_id'' \<mapsto> PStr v)) ''anonymous_id''"
    using generalize_age_keeps [OF r(3)] by simp
  also have "\<dots> = Some (PStr v)"
    by (simp add: remove_identifiers_apply sensitive_fields_def)
  finally show ?thesis using r by simp
qed

lemma well_typed_copy:
  assumes "well_typed d"
  shows "\<exists>d4 d5. generalize_age (remove_identifiers (d(''anonymous_id'' \<mapsto> PStr v))) = Inr d4
           \<and> generalize_zip_code d4 = Inr d5"
proof -
  let ?d3 = "remove_identifiers (d(''anonymous_id'' \<mapsto> PStr v))"
  have a: "?d3 ''age'' = d ''age''" and z: "?d3 ''zip_code'' = d ''zip_code''"
    by (simp_all add: remove_identifiers_apply sensitive_fields_def)
  from assms a obtain d4 where d4: "generalize_age ?d3 = Inr d4"
    using generalize_age_well_typed [of ?d3] by (auto simp: well_typed_def)
  have "d4 ''zip_code'' = d ''zip_code''"
    using generalize_age_keeps [OF d4, of "''zip_code''"] z by simp
  with assms obtain d5 where "generalize_zip_code d4 = Inr d5"
    using generalize_zip_code_well_typed [of d4] by (auto simp: well_typed_def)
  with d4 show ?thesis by blast
qed

lemma anonymize_total:
  assumes "d < length h" and "well_typed (h ! d)"
  shows "\<exists>self' h'. anonymize_patient_data H now self h d = (Inr (length h), self', h')"
proof -
  let ?pid = "source_identity (h ! d)"
  obtain v where v: "anonymization_map (cache_pseudonym H now self ?pid) ?pid = Some v"
    using cache_pseudonym_defined [of H now self ?pid] by auto
  from well_typed_copy [OF assms(2), of v] obtain d4 d5 where
    "generalize_age (remove_identifiers ((h ! d)(''anonymous_id'' \<mapsto> PStr v))) = Inr d4"
    "generalize_zip_code d4 = Inr d5" by blast
  with v show ?thesis
    unfolding anonymize_steps [OF assms(1)] Let_def by simp
qed

lemma anonymize_output_fields:
  assumes "d < length h"
    and "anonymize_patient_data H now self h d = (Inr out, self', h')"
  shows "\<forall>f \<in> set sensitive_fields. (h' ! out) f = None"
    and "k \<notin> set sensitive_fields \<Longrightarrow> k \<notin> {''age'', ''zip_code'', ''anonymous_id''}
       \<Longrightarrow> (k = ''age_group'' \<longrightarrow> (h ! d) ''age'' = None)
       \<Longrightarrow> (k = ''region'' \<longrightarrow> (h ! d) ''zip_code'' = None)
       \<Longrightarrow> (h' ! out) k = (h ! d) k"
proof -
  from anonymize_returns [OF assms] obtain v d4 d5 where
    r: "out = length h"
    "generalize_age (remove_identifiers ((h ! d)(''anonymous_id'' \<mapsto> PStr v))) = Inr d4"
    "generalize_zip_code d4 = Inr d5" "h' = h @ [d5]"
    by metis
  let ?d3 = "remove_identifiers ((h ! d)(''anonymous_id'' \<mapsto> PStr v))"
  have out: "h' ! out = d5" using r by simp
  show "\<forall>f \<in> set sensitive_fields. (h' ! out) f = None"
  proof
    fix f assume f: "f \<in> set sensitive_fields"
    then have ne: "f \<noteq> ''age''" "f \<noteq> ''age_group''" "f \<noteq> ''zip_code''" "f \<noteq> ''region''"
      by (auto simp: sensitive_fields_def)
    have "d5 f = d4 f" using generalize_zip_code_keeps [OF r(3)] ne by simp
    also have "\<dots> = ?d3 f" using generalize_age_keeps [OF r(2)] ne by simp
    also have "\<dots> = None" using f by (simp add: remove_identifiers_apply)
    finally show "(h' ! out) f = None" using out by simp
  qed
  assume k: "k \<notin> set sensitive_fields" "k \<notin> {''age'', ''zip_code'', ''anonymous_id''}"
    "k = ''age_group'' \<longrightarrow> (h ! d) ''age'' = None"
    "k = ''region'' \<longrightarrow> (h ! d) ''zip_code'' = None"
  have d3: "?d3 k = (h ! d) k" using k(1,2) by (simp add: remove_identifiers_apply)
  have d3age: "?d3 ''age'' = (h ! d) ''age''" and d3zip: "?d3 ''zip_code'' = (h ! d) ''zip_code''"
    by (simp_all add: remove_identifiers_apply sensitive_fields_def)
  have d4: "d4 k = ?d3 k"
  proof (cases "k = ''age_group''")
    case True
    with k(3) d3age have "?d3 ''age'' = None" by simp
    from generalize_age_no_age [OF r(2) this] have "d4 = ?d3" .
    then show ?thesis by (simp only:)
  next
    case False
    with generalize_age_keeps [OF r(2), of k] k(2) show ?thesis by simp
  qed
  have d4zip: "d4 ''zip_code'' = ?d3 ''zip_code''"
    using generalize_age_keeps [OF r(2), of "''zip_code''"] by simp
  have d5: "d5 k = d4 k"
  proof (cases "k = ''region''")
    case True
    with k(4) d3zip d4zip have "d4 ''zip_code'' = None" by simp
    from generalize_zip_code_no_zip [OF r(3) this] have "d5 = d4" .
    then show ?thesis by (simp only:)
  next
    case False
    with generalize_zip_code_keeps [OF r(3), of k] k(2) show ?thesis by simp
  qed
  from d3 d4 d5 out show "(h' ! out) k = (h ! d) k" by simp
qed

text \<open>
  Claim C8. Two calls on records with the same source identity, on one processor and
  with any sequence of other calls in between, put the same \<open>anonymous_id\<close> in both
  results; the first result still carries it after the later calls. The calls are taken
  one after the other, each as a whole: the cache is read and written without
  interruption by another call.
\<close>

theorem same_identity_same_anonymous_id:
  assumes first: "anonymize_patient_data H now1 self h d1 = (Inr out1, self1, h1)"
    and others: "anonymize_calls H self1 h1 calls = (self2, h2)"
    and second: "anonymize_patient_data H now2 self2 h2 d2 = (Inr out2, self3, h3)"
    and refs: "d1 < length h" "d2 < length h2"
    and same: "source_identity (h2 ! d2) = source_identity (h ! d1)"
  shows "\<exists>v. (h1 ! out1) ''anonymous_id'' = Some (PStr v)
           \<and> (h3 ! out2) ''anonymous_id'' = Some (PStr v)
           \<and> (h3 ! out1) ''anonymous_id'' = Some (PStr v)"
proof -
  from anonymous_id_of_result [OF refs(1) first] obtain v where
    v: "anonymization_map self1 (source_identity (h ! d1)) = Some v"
    "(h1 ! out1) ''anonymous_id'' = Some (PStr v)" "out1 = length h" "length h1 = Suc (length h)"
    by blast
  from anonymize_calls_effect [OF others, of "source_identity (h ! d1)" v] v(1) have
    kept: "anonymization_map self2 (source_identity (h ! d1)) = Some v"
    and len: "length h1 \<le> length h2" and pre: "take (length h1) h2 = h1" by auto
  from anonymous_id_of_result [OF refs(2) second] obtain w where
    w: "anonymization_map self3 (source_identity (h2 ! d2)) = Some w"
    "(h3 ! out2) ''anonymous_id'' = Some (PStr w)" by blast
  from anonymize_cache_grows [OF second kept] same w(1) have "w = v" by simp
  from anonymize_effect [OF second] obtain x where h3: "h3 = h2 @ [x]" by blast
  have "out1 < length h1" using v by simp
  then have "h1 ! out1 = h2 ! out1"
    using pre by (metis nth_take)
  also have "\<dots> = h3 ! out1"
    using h3 len \<open>out1 < length h1\<close> by (simp add: nth_append)
  finally have "(h3 ! out1) ''anonymous_id'' = Some (PStr v)" using v(2) by simp
  with v(2) w(2) \<open>w = v\<close> show ?thesis by blast
qed

theorem same_identity_same_anonymous_id_witness:
  "\<exists>out1 self1 h1 self2 h2 out2 self3 h3 v.
      anonymize_patient_data (\<lambda>s. s) ''2026-11-04T10:00:00'' fresh_processor
        [sample_record, sample_record_no_id] 0 = (Inr out1, self1, h1)
    \<and> anonymize_calls (\<lambda>s. s) self1 h1 [(''2026-11-04T10:00:01'', 1)] = (self2, h2)
    \<and> anonymize_patient_data (\<lambda>s. s) ''2026-11-04T10:00:02'' self2 h2 0 = (Inr out2, self3, h3)
    \<and> (h1 ! out1) ''anonymous_id'' = Some (PStr v)
    \<and> (h3 ! out2) ''anonymous_id'' = Some (PStr v)"
proof -
  let ?h = "[sample_record, sample_record_no_id]"
  have ref1: "(0::nat) < length ?h" by simp
  have wt: "well_typed sample_record" by (simp add: well_typed_def sample_record_def)
  then have "well_typed (?h ! 0)" by simp
  from anonymize_total [OF ref1 this] obtain self1 h1 where first:
    "anonymize_patient_data (\<lambda>s. s) ''2026-11-04T10:00:00'' fresh_processor ?h 0
       = (Inr (length ?h), self1, h1)" by blast
  obtain self2 h2 where others:
    "anonymize_calls (\<lambda>s. s) self1 h1 [(''2026-11-04T10:00:01'', 1)] = (self2, h2)"
    by (cases "anonymize_calls (\<lambda>s. s) self1 h1 [(''2026-11-04T10:00:01'', 1)]")
  from anonymize_effect [OF first] obtain x where h1: "h1 = ?h @ [x]" by blast
  from anonymize_calls_effect [OF others] have
    len: "length h1 \<le> length h2" and pre: "take (length h1) h2 = h1" by auto
  have ref2: "0 < length h2" using len h1 by auto
  have "h2 ! 0 = take (length h1) h2 ! 0" using h1 by simp
  also have "\<dots> = sample_record" using pre h1 by simp
  finally have h20: "h2 ! 0 = sample_record" .
  with wt have "well_typed (h2 ! 0)" by simp
  from anonymize_total [OF ref2 this] obtain self3 h3 where second:
    "anonymize_patient_data (\<lambda>s. s) ''2026-11-04T10:00:02'' self2 h2 0
       = (Inr (length h2), self3, h3)" by blast
  have same: "source_identity (h2 ! 0) = source_identity (?h ! 0)" using h20 by simp
  from same_identity_same_anonymous_id [OF first others second ref1 ref2 same]
  obtain v where "(h1 ! length ?h) ''anonymous_id'' = Some (PStr v)"
    "(h3 ! length h2) ''anonymous_id'' = Some (PStr v)" by blast
  with first others second show ?thesis by blast
qed


text \<open>
  Claim C7. A call on a record whose age and zip code have the expected types returns a
  dictionary, and in every dictionary returned none of the six direct-identifier names is
  a key, while every other field is carried through with its value unless the call
  itself rewrites it: \<open>age\<close> and \<open>zip_code\<close> are replaced by \<open>age_group\<close> and
  \<open>region\<close>, and \<open>anonymous_id\<close> is set to the pseudonym.
\<close>

theorem anonymize_strips_direct_identifiers:
  assumes "ehr_data < length h"
  shows "(well_typed (h ! ehr_data) \<longrightarrow>
            (\<exists>self' h'. anonymize_patient_data H now self h ehr_data = (Inr (length h), self', h')))
       \<and> (\<forall>out self' h'. anonymize_patient_data H now self h ehr_data = (Inr out, self', h') \<longrightarrow>
            (\<forall>f \<in> set sensitive_fields. (h' ! out) f = None)
          \<and> (\<forall>k. k \<notin> set sensitive_fields \<and> k \<notin> {''age'', ''zip_code'', ''anonymous_id''}
                 \<and> (k = ''age_group'' \<longrightarrow> (h ! ehr_data) ''age'' = None)
                 \<and> (k = ''region'' \<longrightarrow> (h ! ehr_data) ''zip_code'' = None)
                 \<longrightarrow> (h' ! out) k = (h ! ehr_data) k))"
proof (intro conjI allI impI)
  assume "well_typed (h ! ehr_data)"
  with assms show "\<exists>self' h'. anonymize_patient_data H now self h ehr_data = (Inr (length h), self', h')"
    by (rule anonymize_total)
next
  fix out self' h'
  assume "anonymize_patient_data H now self h ehr_data = (Inr out, self', h')"
  with assms show "\<forall>f \<in> set sensitive_fields. (h' ! out) f = None"
    by (rule anonymize_output_fields(1))
next
  fix out self' h' k
  assume run: "anonymize_patient_data H now self h ehr_data = (Inr out, self', h')"
    and k: "k \<notin> set sensitive_fields \<and> k \<notin> {''age'', ''zip_code'', ''anonymous_id''}
                 \<and> (k = ''age_group'' \<longrightarrow> (h ! ehr_data) ''age'' = None)
                 \<and> (k = ''region'' \<longrightarrow> (h ! ehr_data) ''zip_code'' = None)"
  note k1 = k [THEN conjunct1] and k2 = k [THEN conjunct2, THEN conjunct1]
    and k3 = k [THEN conjunct2, THEN conjunct2, THEN conjunct1]
    and k4 = k [THEN conjunct2, THEN conjunct2, THEN conjunct2]
  show "(h' ! out) k = (h ! ehr_data) k"
    by (rule anonymize_output_fields(2) [OF assms run k1 k2 k3 k4])
qed

theorem anonymize_strips_direct_identifiers_witness:
  "\<exists>self' h'. anonymize_patient_data (\<lambda>s. s) ''2026-11-04T10:00:00'' fresh_processor [sample_record] 0
       = (Inr 1, self', h')
     \<and> (h' ! 1) ''patient_id'' = None \<and> (h' ! 1) ''name'' = None
     \<and> (h' ! 1) ''gender'' = Some (PStr ''female'')"
proof -
  have ref: "(0::nat) < length [sample_record]" by simp
  have wt: "well_typed ([sample_record] ! 0)" by (simp add: well_typed_def sample_record_def)
  note inst = anonymize_strips_direct_identifiers
    [OF ref, of "\<lambda>s. s" "''2026-11-04T10:00:00''" fresh_processor]
  from inst [THEN conjunct1, rule_format, OF wt] obtain self' h' where
    "anonymize_patient_data (\<lambda>s. s) ''2026-11-04T10:00:00'' fresh_processor [sample_record] 0
       = (Inr (length [sample_record]), self', h')" by blast
  then have run:
    "anonymize_patient_data (\<lambda>s. s) ''2026-11-04T10:00:00'' fresh_processor [sample_record] 0
       = (Inr 1, self', h')" by simp
  note out = inst [THEN conjunct2, rule_format, OF run]
  from out [THEN conjunct1] have "(h' ! 1) ''patient_id'' = None" "(h' ! 1) ''name'' = None"
    by (simp_all add: sensitive_fields_def)
  moreover from out [THEN conjunct2, rule_format, of "''gender''"]
  have "(h' ! 1) ''gender'' = Some (PStr ''female'')"
    by (simp add: sensitive_fields_def sample_record_def)
  ultimately show ?thesis using run by blast
qed

text \<open>
  Claim C10. The call leaves the caller's record as it was, with every field it had, and
  so every other dictionary of the store; the result is a new object. This holds whether
  the call returns or raises.
\<close>

theorem anonymize_leaves_input_unchanged:
  assumes "ehr_data < length h"
    and "anonymize_patient_data H now self h ehr_data = (res, self', h')"
  shows "h' ! ehr_data = h ! ehr_data
       \<and> (\<forall>r < length h. h' ! r = h ! r)
       \<and> (\<forall>out. res = Inr out \<longrightarrow> out = length h \<and> out \<noteq> ehr_data)"
proof -
  from anonymize_effect [OF assms(2)] obtain x where h': "h' = h @ [x]" by blast
  then have old: "\<forall>r < length h. h' ! r = h ! r" by (simp add: nth_append)
  have "out = length h \<and> out \<noteq> ehr_data" if "res = Inr out" for out
    using anonymize_returns [OF assms(1) assms(2) [unfolded that]] assms(1) by (metis nat_neq_iff)
  with old assms(1) show ?thesis by blast
qed

theorem anonymize_leaves_input_unchanged_witness:
  "\<exists>res self' h'. anonymize_patient_data (\<lambda>s. s) ''2026-11-04T10:00:00'' fresh_processor [sample_record] 0
        = (res, self', h')
     \<and> (h' ! 0) ''patient_id'' = Some (PInt 7) \<and> (h' ! 0) ''name'' = Some (PStr ''Ann'')
     \<and> (h' ! 0) ''age'' = Some (PInt 40) \<and> (h' ! 0) ''zip_code'' = Some (PStr ''12345'')"
proof -
  obtain res self' h' where run:
    "anonymize_patient_data (\<lambda>s. s) ''2026-11-04T10:00:00'' fresh_processor [sample_record] 0
        = (res, self', h')"
    by (cases "anonymize_patient_data (\<lambda>s. s) ''2026-11-04T10:00:00'' fresh_processor [sample_record] 0")
  have ref: "(0::nat) < length [sample_record]" by simp
  from anonymize_leaves_input_unchanged [OF ref run] have "h' ! 0 = sample_record" by simp
  then have "(h' ! 0) ''patient_id'' = Some (PInt 7)" "(h' ! 0) ''name'' = Some (PStr ''Ann'')"
    "(h' ! 0) ''age'' = Some (PInt 40)" "(h' ! 0) ''zip_code'' = Some (PStr ''12345'')"
    by (simp_all add: sample_record_def)
  with run show ?thesis by blast
qed

text \<open>
  Claim C9 says that a record without a source identity is rejected with a validation
  error. The source reads the identity with the default \<open>''\<close> and goes on: on a record
  with no \<open>patient_id\<close> the call returns a new dictionary.
\<close>

theorem missing_patient_id_is_not_rejected:
  "fst (anonymize_patient_data (\<lambda>s. s) ''2026-11-04T10:00:00'' fresh_processor [sample_record_no_id] 0)
     = Inr 1"
  by (simp add: anonymize_steps source_identity_def cache_pseudonym_def fresh_processor_def
        sample_record_no_id_def remove_identifiers_def sensitive_fields_def generalize_age_def
        generalize_zip_code_def Let_def)

text \<open>
  Claim C9, as the source has it. A record without \<open>patient_id\<close> (its age and zip code
  of the expected types) is anonymized under the source identity \<open>''\<close>: the call returns
  a dictionary whose \<open>anonymous_id\<close> is the pseudonym cached for the empty string, which
  is computed from the text \<open>_\<close> followed by the clock reading when no such record was
  seen before.
\<close>

theorem anonymize_without_patient_id:
  assumes "ehr_data < length h"
    and "(h ! ehr_data) ''patient_id'' = None"
    and "well_typed (h ! ehr_data)"
  shows "\<exists>self' h' v. anonymize_patient_data H now self h ehr_data = (Inr (length h), self', h')
           \<and> anonymization_map self' (PStr '''') = Some v
           \<and> (h' ! length h) ''anonymous_id'' = Some (PStr v)
           \<and> (anonymization_map self (PStr '''') = None \<longrightarrow> v = take 16 (H (''_'' @ now)))"
proof -
  have sid: "source_identity (h ! ehr_data) = PStr ''''"
    using assms(2) by (simp add: source_identity_def)
  from anonymize_total [OF assms(1,3)] obtain self' h' where
    run: "anonymize_patient_data H now self h ehr_data = (Inr (length h), self', h')" by blast
  from anonymous_id_of_result [OF assms(1) run] sid obtain v where
    v: "anonymization_map self' (PStr '''') = Some v"
    "(h' ! length h) ''anonymous_id'' = Some (PStr v)" by auto
  from anonymize_frame [OF assms(1) run] sid have
    "self' = cache_pseudonym H now self (PStr '''')" by simp
  with v(1) have fresh: "anonymization_map self (PStr '''') = None \<longrightarrow> v = take 16 (H (''_'' @ now))"
    by (auto simp: cache_pseudonym_def py_str_def)
  show ?thesis
    apply (rule exI [of _ self'], rule exI [of _ h'], rule exI [of _ v])
    using run v fresh apply (intro conjI)
       apply assumption+
    done
qed

theorem anonymize_without_patient_id_witness:
  "\<exists>self' h'. anonymize_patient_data (\<lambda>s. s) ''2026-11-04T10:00:00'' fresh_processor [sample_record_no_id] 0
       = (Inr 1, self', h')
     \<and> anonymization_map self' (PStr '''') = Some ''_2026-11-04T10:0''
     \<and> (h' ! 1) ''anonymous_id'' = Some (PStr ''_2026-11-04T10:0'')"
proof -
  have ref: "(0::nat) < length [sample_record_no_id]" by simp
  have no_id: "([sample_record_no_id] ! 0) ''patient_id'' = None"
    by (simp add: sample_record_no_id_def)
  have wt: "well_typed ([sample_record_no_id] ! 0)"
    by (simp add: well_typed_def sample_record_no_id_def)
  from anonymize_without_patient_id [OF ref no_id wt, of "\<lambda>s. s" "''2026-11-04T10:00:00''" fresh_processor]
  show ?thesis by (simp add: fresh_processor_def)
qed

section \<open>Properties of the image encryption\<close>

lemma byte_of_char_of: "of_char (char_of (unat (b :: 8 word))) = b"
proof -
  have "(of_char (char_of (unat b)) :: 8 word) = of_nat (of_char (char_of (unat b)))"
    by (simp only: of_nat_of_char)
  also have "\<dots> = of_nat (unat b mod 256)" by simp
  also have "\<dots> = b"
  proof -
    have "unat b < 256" using unsigned_less [of b, where 'a = nat] by simp
    then show ?thesis by simp
  qed
  finally show ?thesis .
qed

lemma toy_lib_ok: "crypto_lib_ok toy_lib"
  by (auto simp add: crypto_lib_ok_def toy_lib_def is_ascii_def list_all_iff comp_def byte_of_char_of)

lemma unpad_pad: "unpad_data (pad_data p) = Inr p"
proof -
  define k where "k = 16 - length p mod 16"
  have k: "0 < k" "k \<le> 16" by (simp_all add: k_def)
  have u: "unat (of_nat k :: 8 word) = k" using k by (simp add: unat_of_nat)
  have pad: "pad_data p = p @ replicate k (of_nat k)"
    by (simp only: pad_data_def Let_def k_def)
  have ne: "p @ replicate k (of_nat k :: 8 word) \<noteq> []" using k by simp
  have l: "last (p @ replicate k (of_nat k :: 8 word)) = of_nat k" using k by simp
  show ?thesis
    unfolding pad unpad_data_def Let_def l u using k ne by simp
qed

lemma pad_length: "length (pad_data p) mod 16 = 0"
  by (simp add: pad_data_def Let_def) presburger

lemma image_key_length:
  assumes "crypto_lib_ok L"
  shows "length (generate_image_key L self s) = 32"
  using assms by (simp add: crypto_lib_ok_def generate_image_key_def key_size_def Let_def)

lemma compare_digest_ascii:
  assumes "is_ascii a" and "is_ascii b"
  shows "compare_digest a b = Inr (a = b)"
  using assms by (simp add: compare_digest_def)

lemma compare_digest_other:
  assumes "a \<noteq> b" and "is_ascii b"
  shows "compare_digest a b = (if is_ascii a then Inr False else Inl TypeError)"
  using assms by (simp add: compare_digest_def)

text \<open>What a successful encryption returns.\<close>

lemma encrypt_returns:
  assumes "encrypt_dicom_image L self now random_iv p s = Inr pkg"
  obtains c where
    "aes_cbc_encrypt L (generate_image_key L self s) random_iv (pad_data p) = Inr c"
    "encrypted_data pkg = b64encode L c" "iv pkg = b64encode L random_iv"
    "integrity_hash pkg = hmac_sha256_hexdigest L (generate_image_key L self s) c"
  using assms unfolding encrypt_dicom_image_def Let_def
  by (auto split: sum.splits)

lemma encrypt_succeeds:
  assumes "crypto_lib_ok L" and "length random_iv = 16"
  obtains pkg c where
    "encrypt_dicom_image L self now random_iv p s = Inr pkg"
    "aes_cbc_encrypt L (generate_image_key L self s) random_iv (pad_data p) = Inr c"
    "aes_cbc_decrypt L (generate_image_key L self s) random_iv c = Inr (pad_data p)"
proof -
  from assms(1) have cipher: "\<And>key iv blocks. length key = 32 \<Longrightarrow> length iv = 16
        \<Longrightarrow> length blocks mod 16 = 0
        \<Longrightarrow> \<exists>c. aes_cbc_encrypt L key iv blocks = Inr c \<and> aes_cbc_decrypt L key iv c = Inr blocks"
    by (simp add: crypto_lib_ok_def)
  from cipher [OF image_key_length [OF assms(1), of self s] assms(2) pad_length [of p]]
  obtain c where c: "aes_cbc_encrypt L (generate_image_key L self s) random_iv (pad_data p) = Inr c"
    "aes_cbc_decrypt L (generate_image_key L self s) random_iv c = Inr (pad_data p)"
    by blast
  then have "\<exists>pkg. encrypt_dicom_image L self now random_iv p s = Inr pkg"
    by (simp add: encrypt_dicom_image_def Let_def)
  with c that show ?thesis by blast
qed

lemma decrypt_steps:
  assumes "b64decode L (encrypted_data pkg) = Inr c" and "b64decode L (iv pkg) = Inr v"
  shows "decrypt_dicom_image L self pkg s =
     (case compare_digest (integrity_hash pkg)
             (hmac_sha256_hexdigest L (generate_image_key L self s) c) of
        Inl e \<Rightarrow> Inl e
      | Inr equal \<Rightarrow>
          if \<not> equal then Inl integrity_failure
          else (case aes_cbc_decrypt L (generate_image_key L self s) v c of
                  Inl e \<Rightarrow> Inl e
                | Inr padded_data \<Rightarrow> unpad_data padded_data))"
  using assms by (simp add: decrypt_dicom_image_def Let_def)

lemma decrypt_authenticates:
  assumes "decrypt_dicom_image L self pkg s = Inr x"
  shows "\<exists>c. b64decode L (encrypted_data pkg) = Inr c
           \<and> integrity_hash pkg = hmac_sha256_hexdigest L (generate_image_key L self s) c"
  using assms unfolding decrypt_dicom_image_def Let_def compare_digest_def
  by (auto split: sum.splits if_splits)

text \<open>
  The second instance satisfies the assumptions too; the equations after it are its
  fields and the sample run, step by step.
\<close>

lemma first_block_inverse:
  assumes "length v = 16" and "length x mod 16 = 0"
  shows "first_block_with (-) v (first_block_with (+) v x) = x"
proof (cases "x = []")
  case True
  then show ?thesis by (simp add: first_block_with_def)
next
  case False
  with assms(2) have len: "16 \<le> length x"
    by (metis length_0_conv mod_less not_le)
  let ?c = "map2 (+) (take 16 x) v"
  have lc: "length ?c = 16" using len assms(1) by simp
  have undo: "map2 (-) ?c v = take 16 x"
  proof (rule nth_equalityI)
    show "length (map2 (-) ?c v) = length (take 16 x)" using len assms(1) by simp
  next
    fix i assume "i < length (map2 (-) ?c v)"
    then have i: "i < 16" using assms(1) by simp
    then show "map2 (-) ?c v ! i = take 16 x ! i" using len assms(1) by simp
  qed
  have "first_block_with (-) v (first_block_with (+) v x)
      = map2 (-) (take 16 (?c @ drop 16 x)) v @ drop 16 (?c @ drop 16 x)"
    by (simp only: first_block_with_def)
  also have "\<dots> = map2 (-) ?c v @ drop 16 x" using lc by simp
  also have "\<dots> = x" unfolding undo by simp
  finally show ?thesis .
qed

lemma two_letters_ascii: "is_ascii (two_letters b)"
proof -
  have "unat b < 256" using unsigned_less [of b, where 'a = nat] by simp
  then have "unat b div 16 < 16" by simp
  then have "65 + unat b div 16 < 128" "65 + unat b mod 16 < 128" by simp_all
  then show ?thesis by (simp add: is_ascii_def two_letters_def)
qed

lemma digest_ascii: "is_ascii (concat (map two_letters msg))"
  using two_letters_ascii by (induction msg) (simp_all add: is_ascii_def)

lemma lenient_lib_ok: "crypto_lib_ok lenient_lib"
  by (simp add: crypto_lib_ok_def lenient_lib_def first_block_inverse digest_ascii
        comp_def byte_of_char_of)

lemma lenient_fields:
  "aes_cbc_encrypt lenient_lib k v x = Inr (first_block_with (+) v x)"
  "aes_cbc_decrypt lenient_lib k v x = Inr (first_block_with (-) v x)"
  "hmac_sha256_hexdigest lenient_lib k x = concat (map two_letters x)"
  "b64decode lenient_lib (b64encode lenient_lib x) = Inr x"
  "b64decode lenient_lib (butlast (b64encode lenient_lib x) @ [ch]) = Inr x"
  "butlast (b64encode lenient_lib x) @ ''A'' \<noteq> b64encode lenient_lib x"
  "generate_image_key lenient_lib self s = replicate 32 0"
  by (simp_all add: lenient_lib_def comp_def byte_of_char_of generate_image_key_def
        key_size_def Let_def)

lemma pad_block:
  assumes "length p = 16"
  shows "pad_data p = p @ replicate 16 16"
  using assms by (simp add: pad_data_def Let_def)

lemma replicate_16:
  "replicate 16 x = [x, x, x, x, x, x, x, x, x, x, x, x, x, x, x, x]"
  by (simp add: numeral_eq_Suc)

lemma sample_lengths: "length sample_payload = 16" "length (0 # tl sample_payload) = 16"
  by (simp_all add: sample_payload_def)

lemma sample_cipher:
  "first_block_with (+) sample_iv (sample_payload @ replicate 16 16) = sample_ciphertext"
  by (simp add: first_block_with_def sample_iv_def sample_payload_def sample_ciphertext_def
        replicate_16)

lemma sample_plain:
  "first_block_with (-) sample_iv sample_ciphertext = sample_payload @ replicate 16 16"
  by (simp add: first_block_with_def sample_iv_def sample_payload_def sample_ciphertext_def
        replicate_16)

lemma sample_plain_other:
  "first_block_with (-) (8 # tl sample_iv) sample_ciphertext
     = (0 # tl sample_payload) @ replicate 16 16"
  by (simp add: first_block_with_def sample_iv_def sample_payload_def sample_ciphertext_def
        replicate_16)

text \<open>
  Claim C5. For every payload and every image id, encryption returns a package and
  decrypting that package under the same image id returns the payload, whatever the
  16 random bytes of the initialization vector are.
\<close>

theorem decrypt_encrypt_roundtrip:
  assumes "crypto_lib_ok L" and "length random_iv = 16"
  shows "\<exists>pkg. encrypt_dicom_image L self now random_iv p s = Inr pkg
           \<and> decrypt_dicom_image L self pkg s = Inr p"
proof -
  from encrypt_succeeds [OF assms] obtain pkg c where
    enc: "encrypt_dicom_image L self now random_iv p s = Inr pkg"
    and c: "aes_cbc_encrypt L (generate_image_key L self s) random_iv (pad_data p) = Inr c"
    "aes_cbc_decrypt L (generate_image_key L self s) random_iv c = Inr (pad_data p)"
    by blast
  from encrypt_returns [OF enc] c(1) have
    f: "encrypted_data pkg = b64encode L c" "iv pkg = b64encode L random_iv"
    "integrity_hash pkg = hmac_sha256_hexdigest L (generate_image_key L self s) c"
    by auto
  from assms(1) have b64: "\<And>x. b64decode L (b64encode L x) = Inr x"
    and ascii: "\<And>key msg. is_ascii (hmac_sha256_hexdigest L key msg)"
    by (simp_all add: crypto_lib_ok_def)
  have "decrypt_dicom_image L self pkg s = Inr p"
    by (simp add: decrypt_steps [of L pkg c random_iv] f b64 compare_digest_ascii ascii c unpad_pad)
  with enc show ?thesis by blast
qed

theorem decrypt_encrypt_roundtrip_witness:
  "\<exists>pkg. encrypt_dicom_image toy_lib \<lparr>master_key = [1, 2, 3]\<rparr> ''2026-11-04T10:00:00''
            (replicate 16 0) [72, 105] ''img-1'' = Inr pkg
        \<and> decrypt_dicom_image toy_lib \<lparr>master_key = [1, 2, 3]\<rparr> pkg ''img-1'' = Inr [72, 105]"
proof -
  have iv: "length (replicate 16 (0 :: 8 word)) = 16" by simp
  from decrypt_encrypt_roundtrip [OF toy_lib_ok iv] show ?thesis .
qed

text \<open>
  Claim C6 says that a package with any byte of its ciphertext or of its tag changed is
  refused with the integrity failure, and that decryption never returns a payload that
  was not authenticated. The package stores the ciphertext as text, and the check
  compares the tag with the digest of the decoded bytes: a changed text that decodes to
  the same bytes is accepted. The initialization vector, which the package stores beside
  the ciphertext, is not under the tag at all. Below, with a library that satisfies every
  assumption made of the primitives, the last character of the stored ciphertext is
  replaced and decryption returns the payload; the first byte of the stored
  initialization vector is replaced by 8 and decryption returns, with no error, a payload
  whose first byte is 0 where the encrypted payload has 1.
\<close>

theorem changed_text_and_changed_iv_are_accepted:
  "crypto_lib_ok lenient_lib
 \<and> encrypt_dicom_image lenient_lib sample_key ''2026-11-04T10:00:00'' sample_iv sample_payload ''img-1''
     = Inr sample_package
 \<and> butlast (encrypted_data sample_package) @ ''A'' \<noteq> encrypted_data sample_package
 \<and> decrypt_dicom_image lenient_lib sample_key
       (sample_package\<lparr>encrypted_data := butlast (encrypted_data sample_package) @ ''A''\<rparr>) ''img-1''
     = Inr sample_payload
 \<and> decrypt_dicom_image lenient_lib sample_key
       (sample_package\<lparr>iv := b64encode lenient_lib (8 # tl sample_iv)\<rparr>) ''img-1''
     = Inr (0 # tl sample_payload)
 \<and> 0 # tl sample_payload \<noteq> sample_payload"
proof (intro conjI)
  show "crypto_lib_ok lenient_lib" by (rule lenient_lib_ok)
  have tag: "compare_digest (concat (map two_letters sample_ciphertext))
      (concat (map two_letters sample_ciphertext)) = Inr True"
    by (simp add: compare_digest_ascii [OF digest_ascii digest_ascii])
  show "encrypt_dicom_image lenient_lib sample_key ''2026-11-04T10:00:00'' sample_iv
      sample_payload ''img-1'' = Inr sample_package"
    by (simp add: encrypt_dicom_image_def Let_def lenient_fields pad_block [OF sample_lengths(1)]
          sample_cipher sample_package_def)
  show "butlast (encrypted_data sample_package) @ ''A'' \<noteq> encrypted_data sample_package"
    by (simp add: sample_package_def lenient_fields(6))
  have "decrypt_dicom_image lenient_lib sample_key
       (sample_package\<lparr>encrypted_data := butlast (encrypted_data sample_package) @ ''A''\<rparr>) ''img-1''
     = unpad_data (pad_data sample_payload)"
    by (simp add: decrypt_steps [of _ _ sample_ciphertext sample_iv] sample_package_def
          lenient_fields tag sample_plain pad_block [OF sample_lengths(1)])
  then show "decrypt_dicom_image lenient_lib sample_key
       (sample_package\<lparr>encrypted_data := butlast (encrypted_data sample_package) @ ''A''\<rparr>) ''img-1''
     = Inr sample_payload"
    by (simp only: unpad_pad)
  have "decrypt_dicom_image lenient_lib sample_key
       (sample_package\<lparr>iv := b64encode lenient_lib (8 # tl sample_iv)\<rparr>) ''img-1''
     = unpad_data (pad_data (0 # tl sample_payload))"
    by (simp add: decrypt_steps [of _ _ sample_ciphertext "8 # tl sample_iv"] sample_package_def
          lenient_fields tag sample_plain_other pad_block [OF sample_lengths(2)])
  then show "decrypt_dicom_image lenient_lib sample_key
       (sample_package\<lparr>iv := b64encode lenient_lib (8 # tl sample_iv)\<rparr>) ''img-1''
     = Inr (0 # tl sample_payload)"
    by (simp only: unpad_pad)
  show "0 # tl sample_payload \<noteq> sample_payload"
    by (simp add: sample_payload_def)
qed

text \<open>
  Claim C6, as the source has it. Take a package returned by encryption. Replacing its
  integrity tag by any other text makes decryption raise at the comparison of the tags:
  the integrity failure when the new tag is ASCII, the TypeError of \<open>compare_digest\<close>
  when it is not. Replacing its ciphertext by a text that decodes makes decryption raise
  the integrity failure exactly when the digest of the decoded bytes differs from the
  stored tag; when the digest is the stored tag, as it is for another text of the same
  bytes, decryption goes on to decipher and unpad the decoded bytes. A text that does not
  decode raises the decoding error. Replacing the initialization vector by a text that
  decodes is not detected: decryption deciphers the ciphertext with the new vector and
  unpads the result. Decryption returns a payload only for a package whose tag is the
  digest of its ciphertext under the derived key.
\<close>

theorem decrypt_rejects_tampering:
  assumes "crypto_lib_ok L"
    and "encrypt_dicom_image L self now random_iv p s = Inr pkg"
  shows "(\<forall>tag'. tag' \<noteq> integrity_hash pkg \<longrightarrow>
            decrypt_dicom_image L self (pkg\<lparr>integrity_hash := tag'\<rparr>) s
              = Inl (if is_ascii tag' then integrity_failure else TypeError))
       \<and> (\<forall>text' c'. b64decode L text' = Inr c' \<longrightarrow>
            decrypt_dicom_image L self (pkg\<lparr>encrypted_data := text'\<rparr>) s
              = (if hmac_sha256_hexdigest L (generate_image_key L self s) c' \<noteq> integrity_hash pkg
                 then Inl integrity_failure
                 else (case aes_cbc_decrypt L (generate_image_key L self s) random_iv c' of
                         Inl e \<Rightarrow> Inl e
                       | Inr padded_data \<Rightarrow> unpad_data padded_data)))
       \<and> (\<forall>text' e. b64decode L text' = Inl e \<longrightarrow>
            decrypt_dicom_image L self (pkg\<lparr>encrypted_data := text'\<rparr>) s = Inl e)
       \<and> (\<forall>text' v' c. b64decode L text' = Inr v' \<and> b64decode L (encrypted_data pkg) = Inr c \<longrightarrow>
            decrypt_dicom_image L self (pkg\<lparr>iv := text'\<rparr>) s
              = (case aes_cbc_decrypt L (generate_image_key L self s) v' c of
                   Inl e \<Rightarrow> Inl e
                 | Inr padded_data \<Rightarrow> unpad_data padded_data))
       \<and> (\<forall>pkg' x. decrypt_dicom_image L self pkg' s = Inr x \<longrightarrow>
            (\<exists>c. b64decode L (encrypted_data pkg') = Inr c
               \<and> integrity_hash pkg' = hmac_sha256_hexdigest L (generate_image_key L self s) c))"
proof (intro conjI allI impI)
  from encrypt_returns [OF assms(2)] obtain c where
    f: "encrypted_data pkg = b64encode L c" "iv pkg = b64encode L random_iv"
    "integrity_hash pkg = hmac_sha256_hexdigest L (generate_image_key L self s) c"
    by blast
  from assms(1) have b64: "\<And>x. b64decode L (b64encode L x) = Inr x"
    and ascii: "\<And>key msg. is_ascii (hmac_sha256_hexdigest L key msg)"
    by (simp_all add: crypto_lib_ok_def)
  {
    fix tag' assume "tag' \<noteq> integrity_hash pkg"
    then have ne: "tag' \<noteq> hmac_sha256_hexdigest L (generate_image_key L self s) c"
      using f(3) by simp
    have "decrypt_dicom_image L self (pkg\<lparr>integrity_hash := tag'\<rparr>) s =
       (case compare_digest tag' (hmac_sha256_hexdigest L (generate_image_key L self s) c) of
          Inl e \<Rightarrow> Inl e
        | Inr equal \<Rightarrow> if \<not> equal then Inl integrity_failure
            else (case aes_cbc_decrypt L (generate_image_key L self s) random_iv c of
                  Inl e \<Rightarrow> Inl e | Inr padded_data \<Rightarrow> unpad_data padded_data))"
      by (simp add: decrypt_steps [of L _ c random_iv] f b64)
    then show "decrypt_dicom_image L self (pkg\<lparr>integrity_hash := tag'\<rparr>) s
              = Inl (if is_ascii tag' then integrity_failure else TypeError)"
      by (simp add: compare_digest_other [OF ne ascii])
  }
  {
    fix text' c'
    assume t: "b64decode L text' = Inr c'"
    have "compare_digest (integrity_hash pkg)
        (hmac_sha256_hexdigest L (generate_image_key L self s) c')
      = Inr (integrity_hash pkg = hmac_sha256_hexdigest L (generate_image_key L self s) c')"
      unfolding f(3) by (rule compare_digest_ascii [OF ascii ascii])
    with t show "decrypt_dicom_image L self (pkg\<lparr>encrypted_data := text'\<rparr>) s
              = (if hmac_sha256_hexdigest L (generate_image_key L self s) c' \<noteq> integrity_hash pkg
                 then Inl integrity_failure
                 else (case aes_cbc_decrypt L (generate_image_key L self s) random_iv c' of
                         Inl e \<Rightarrow> Inl e
                       | Inr padded_data \<Rightarrow> unpad_data padded_data))"
      by (auto simp add: decrypt_steps [of L _ c' random_iv] f(2) b64)
  }
  {
    fix text' e assume "b64decode L text' = Inl e"
    then show "decrypt_dicom_image L self (pkg\<lparr>encrypted_data := text'\<rparr>) s = Inl e"
      by (simp add: decrypt_dicom_image_def)
  }
  {
    fix text' v' c0
    assume t: "b64decode L text' = Inr v' \<and> b64decode L (encrypted_data pkg) = Inr c0"
    then have c0: "c0 = c" using f(1) b64 by simp
    have "compare_digest (integrity_hash pkg)
        (hmac_sha256_hexdigest L (generate_image_key L self s) c) = Inr True"
      unfolding f(3) by (simp add: compare_digest_ascii [OF ascii ascii])
    with t c0 show "decrypt_dicom_image L self (pkg\<lparr>iv := text'\<rparr>) s
              = (case aes_cbc_decrypt L (generate_image_key L self s) v' c0 of
                   Inl e \<Rightarrow> Inl e
                 | Inr padded_data \<Rightarrow> unpad_data padded_data)"
      by (simp add: decrypt_steps [of L _ c v'])
  }
  {
    fix pkg' x assume "decrypt_dicom_image L self pkg' s = Inr x"
    then show "\<exists>c. b64decode L (encrypted_data pkg') = Inr c
               \<and> integrity_hash pkg' = hmac_sha256_hexdigest L (generate_image_key L self s) c"
      by (rule decrypt_authenticates)
  }
qed

lemma pad_two: "pad_data [72, 105] = [72, 105, 14, 14, 14, 14, 14, 14, 14, 14, 14, 14, 14, 14, 14, 14]"
  by code_simp

lemma toy_hash:
  "hmac_sha256_hexdigest toy_lib k (map (\<lambda>b. b + 1) (pad_data [72, 105])) = ''1111111111111111''"
  by (simp add: toy_lib_def pad_two)

theorem decrypt_rejects_tampering_witness:
  "\<exists>pkg. encrypt_dicom_image toy_lib \<lparr>master_key = [1, 2, 3]\<rparr> ''2026-11-04T10:00:00''
            (replicate 16 0) [72, 105] ''img-1'' = Inr pkg
     \<and> decrypt_dicom_image toy_lib \<lparr>master_key = [1, 2, 3]\<rparr>
            (pkg\<lparr>integrity_hash := ''1111111111111110''\<rparr>) ''img-1'' = Inl integrity_failure
     \<and> decrypt_dicom_image toy_lib \<lparr>master_key = [1, 2, 3]\<rparr>
          (pkg\<lparr>encrypted_data := b64encode toy_lib
              [0, 106, 15, 15, 15, 15, 15, 15, 15, 15, 15, 15, 15, 15, 15, 15]\<rparr>) ''img-1''
        = Inl integrity_failure"
proof -
  let ?K = "\<lparr>master_key = [1, 2, 3]\<rparr>"
  let ?c' = "[0, 106, 15, 15, 15, 15, 15, 15, 15, 15, 15, 15, 15, 15, 15, 15] :: bytes"
  have iv: "length (replicate 16 (0 :: 8 word)) = 16" by simp
  from encrypt_succeeds [OF toy_lib_ok iv, of ?K "''2026-11-04T10:00:00''" "[72, 105]" "''img-1''"]
  obtain pkg where enc:
    "encrypt_dicom_image toy_lib ?K ''2026-11-04T10:00:00'' (replicate 16 0) [72, 105] ''img-1'' = Inr pkg"
    by blast
  from encrypt_returns [OF enc] obtain c where
    c: "aes_cbc_encrypt toy_lib (generate_image_key toy_lib ?K ''img-1'') (replicate 16 0)
          (pad_data [72, 105]) = Inr c"
    and h: "integrity_hash pkg = hmac_sha256_hexdigest toy_lib (generate_image_key toy_lib ?K ''img-1'') c"
    by blast
  from c have "c = map (\<lambda>b. b + 1) (pad_data [72, 105])" by (simp add: toy_lib_def)
  with h have tag: "integrity_hash pkg = ''1111111111111111''" by (simp only: toy_hash)
  note rejects = decrypt_rejects_tampering [OF toy_lib_ok enc]
  have t: "''1111111111111110'' \<noteq> integrity_hash pkg" by (simp add: tag)
  have a: "is_ascii ''1111111111111110''" by (simp add: is_ascii_def)
  from rejects [THEN conjunct1, rule_format, OF t] a
  have part1: "decrypt_dicom_image toy_lib ?K (pkg\<lparr>integrity_hash := ''1111111111111110''\<rparr>) ''img-1''
      = Inl integrity_failure" by simp
  have dec: "b64decode toy_lib (b64encode toy_lib ?c') = Inr ?c'"
    using toy_lib_ok by (simp add: crypto_lib_ok_def)
  have mac: "hmac_sha256_hexdigest toy_lib (generate_image_key toy_lib ?K ''img-1'') ?c'
      \<noteq> integrity_hash pkg"
    by (simp add: tag toy_lib_def)
  from rejects [THEN conjunct2, THEN conjunct1, rule_format, OF dec] mac
  have part2: "decrypt_dicom_image toy_lib ?K (pkg\<lparr>encrypted_data := b64encode toy_lib ?c'\<rparr>) ''img-1''
      = Inl integrity_failure" by simp
  from enc part1 part2 show ?thesis by blast
qed


section \<open>Properties of the federated averaging\<close>

lemma pad_shape_same: "pad_shape (length s) s = s"
  by (simp add: pad_shape_def)

lemma broadcastable_same: "broadcastable s s"
  by (simp add: broadcastable_def pad_shape_same list_all2_same)

lemma concat_chunks:
  "length xs = n * p \<Longrightarrow> concat (map (\<lambda>i. take p (drop (i * p) xs)) [0..<n]) = xs"
proof (induction n arbitrary: xs)
  case 0
  then show ?case by simp
next
  case (Suc n)
  have len: "length (take (n * p) xs) = n * p" using Suc.prems by simp
  have chunks: "map (\<lambda>i. take p (drop (i * p) xs)) [0..<n]
      = map (\<lambda>i. take p (drop (i * p) (take (n * p) xs))) [0..<n]"
  proof (rule map_cong [OF refl])
    fix i assume "i \<in> set [0..<n]"
    then have "i * p + p \<le> n * p"
      by (metis atLeastLessThan_iff set_upt Suc_leI mult_Suc mult_le_mono1 add.commute)
    then show "take p (drop (i * p) xs) = take p (drop (i * p) (take (n * p) xs))"
      by (simp add: drop_take min_def)
  qed
  have "concat (map (\<lambda>i. take p (drop (i * p) xs)) [0..<n]) = take (n * p) xs"
    unfolding chunks by (rule Suc.IH [OF len])
  moreover have "take p (drop (n * p) xs) = drop (n * p) xs" using Suc.prems by simp
  ultimately show ?case by simp
qed

lemma broadcast_to_same:
  "length xs = prod_list s \<Longrightarrow> broadcast_to s s xs = xs"
proof (induction s arbitrary: xs)
  case Nil
  then show ?case by simp
next
  case (Cons n s)
  have chunks: "map (\<lambda>i. broadcast_to s s (take (prod_list s) (drop (i * prod_list s) xs))) [0..<n]
      = map (\<lambda>i. take (prod_list s) (drop (i * prod_list s) xs)) [0..<n]"
  proof (rule map_cong [OF refl])
    fix i assume "i \<in> set [0..<n]"
    then have "i * prod_list s + prod_list s \<le> n * prod_list s"
      by (metis atLeastLessThan_iff set_upt Suc_leI mult_Suc mult_le_mono1 add.commute)
    then have "length (take (prod_list s) (drop (i * prod_list s) xs)) = prod_list s"
      using Cons.prems by simp
    then show "broadcast_to s s (take (prod_list s) (drop (i * prod_list s) xs))
        = take (prod_list s) (drop (i * prod_list s) xs)"
      by (rule Cons.IH)
  qed
  have "broadcast_to (n # s) (n # s) xs
      = concat (map (\<lambda>i. broadcast_to s s (take (prod_list s) (drop (i * prod_list s) xs))) [0..<n])"
    by simp
  also have "\<dots> = xs"
    unfolding chunks using Cons.prems by (simp add: concat_chunks)
  finally show ?case .
qed

lemma iadd_same_shape:
  assumes "shape b = shape a" and "well_formed b"
  shows "iadd a b = Inr \<lparr>shape = shape a, data = map2 (+) (data a) (data b)\<rparr>"
  using assms
  by (simp add: iadd_def broadcastable_same pad_shape_same broadcast_to_same well_formed_def)

lemma accumulate_clients_sum:
  assumes "total_size \<noteq> 0"
    and "client_idx + length ws \<le> length sizes"
    and "\<forall>w \<in> set ws. layer_idx < length w \<and> shape (w ! layer_idx) = shape acc
            \<and> well_formed (w ! layer_idx)"
    and "well_formed acc"
  shows "accumulate_clients sizes total_size layer_idx client_idx ws acc =
     Inr \<lparr>shape = shape acc,
          data = map (\<lambda>k. data acc ! k
                    + sum_list (map (\<lambda>(n, w). of_int n / of_int total_size * data (w ! layer_idx) ! k)
                                 (zip (drop client_idx sizes) ws)))
                   [0..<length (data acc)]\<rparr>"
  using assms
proof (induction ws arbitrary: acc client_idx)
  case Nil
  have "map (\<lambda>k. data acc ! k) [0..<length (data acc)] = data acc" by (rule map_nth)
  then show ?case by simp
next
  case (Cons w ws)
  let ?weight = "of_int (sizes ! client_idx) / of_int total_size :: rat"
  let ?x = "w ! layer_idx"
  let ?acc' = "\<lparr>shape = shape acc, data = map2 (+) (data acc) (data (scale ?weight ?x))\<rparr>"
  from Cons.prems have idx: "client_idx < length sizes" and l: "layer_idx < length w"
    and sh: "shape ?x = shape acc" and wf: "well_formed ?x" by auto
  have len: "length (data ?x) = length (data acc)"
    using sh wf Cons.prems(4) by (simp add: well_formed_def)
  have step: "iadd acc (scale ?weight ?x) = Inr ?acc'"
    by (rule iadd_same_shape) (use sh wf in \<open>simp_all add: scale_def well_formed_def\<close>)
  have wf': "well_formed ?acc'"
    using Cons.prems(4) len by (simp add: well_formed_def scale_def)
  have rest: "accumulate_clients sizes total_size layer_idx (Suc client_idx) ws ?acc' =
     Inr \<lparr>shape = shape ?acc',
          data = map (\<lambda>k. data ?acc' ! k
                    + sum_list (map (\<lambda>(n, w). of_int n / of_int total_size * data (w ! layer_idx) ! k)
                                 (zip (drop (Suc client_idx) sizes) ws)))
                   [0..<length (data ?acc')]\<rparr>"
    by (rule Cons.IH) (use Cons.prems wf' in auto)
  have dr: "drop client_idx sizes = sizes ! client_idx # drop (Suc client_idx) sizes"
    using idx by (simp add: Cons_nth_drop_Suc)
  have elems: "map (\<lambda>k. data ?acc' ! k
                    + sum_list (map (\<lambda>(n, w). of_int n / of_int total_size * data (w ! layer_idx) ! k)
                                 (zip (drop (Suc client_idx) sizes) ws)))
                   [0..<length (data ?acc')]
     = map (\<lambda>k. data acc ! k
                    + sum_list (map (\<lambda>(n, w). of_int n / of_int total_size * data (w ! layer_idx) ! k)
                                 (zip (drop client_idx sizes) (w # ws))))
                   [0..<length (data acc)]"
    unfolding dr using len by (auto simp: scale_def algebra_simps)
  have "accumulate_clients sizes total_size layer_idx client_idx (w # ws) acc
      = accumulate_clients sizes total_size layer_idx (Suc client_idx) ws ?acc'"
    using idx l Cons.prems(1) step by (simp add: Let_def)
  then show ?case unfolding rest elems by simp
qed

lemma zeros_like_facts:
  "shape (zeros_like a) = shape a" "length (data (zeros_like a)) = length (data a)"
  "well_formed a \<Longrightarrow> well_formed (zeros_like a)"
  "k < length (data a) \<Longrightarrow> data (zeros_like a) ! k = 0"
  by (simp_all add: zeros_like_def well_formed_def)

lemma average_layers_sum:
  assumes "total_size \<noteq> 0"
    and "length cw \<le> length sizes"
    and "\<forall>i \<in> set layers. well_formed (first ! i)
            \<and> (\<forall>w \<in> set cw. i < length w \<and> shape (w ! i) = shape (first ! i) \<and> well_formed (w ! i))"
  shows "average_layers cw sizes total_size first layers =
     Inr (map (\<lambda>i. \<lparr>shape = shape (first ! i),
                    data = map (\<lambda>k. sum_list (map (\<lambda>(n, w). of_int n / of_int total_size * data (w ! i) ! k)
                                                (zip sizes cw)))
                             [0..<prod_list (shape (first ! i))]\<rparr>) layers)"
  using assms(3)
proof (induction layers)
  case Nil
  then show ?case by simp
next
  case (Cons i layers)
  let ?z = "zeros_like (first ! i)"
  from Cons.prems have wf: "well_formed (first ! i)"
    and ws: "\<forall>w \<in> set cw. i < length w \<and> shape (w ! i) = shape ?z \<and> well_formed (w ! i)"
    by (simp_all add: zeros_like_facts)
  have n: "length (data ?z) = prod_list (shape (first ! i))"
    using wf by (simp add: zeros_like_facts well_formed_def)
  have "accumulate_clients sizes total_size i 0 cw ?z =
     Inr \<lparr>shape = shape ?z,
          data = map (\<lambda>k. data ?z ! k
                    + sum_list (map (\<lambda>(n, w). of_int n / of_int total_size * data (w ! i) ! k)
                                 (zip (drop 0 sizes) cw)))
                   [0..<length (data ?z)]\<rparr>"
    by (rule accumulate_clients_sum) (use assms(1,2) ws wf in \<open>simp_all add: zeros_like_facts\<close>)
  also have "map (\<lambda>k. data ?z ! k
                    + sum_list (map (\<lambda>(n, w). of_int n / of_int total_size * data (w ! i) ! k)
                                 (zip (drop 0 sizes) cw)))
                   [0..<length (data ?z)]
     = map (\<lambda>k. sum_list (map (\<lambda>(n, w). of_int n / of_int total_size * data (w ! i) ! k)
                                 (zip sizes cw)))
                   [0..<prod_list (shape (first ! i))]"
    unfolding n using n by (simp add: zeros_like_facts)
  finally have layer: "accumulate_clients sizes total_size i 0 cw ?z =
     Inr \<lparr>shape = shape (first ! i),
          data = map (\<lambda>k. sum_list (map (\<lambda>(n, w). of_int n / of_int total_size * data (w ! i) ! k)
                                 (zip sizes cw)))
                   [0..<prod_list (shape (first ! i))]\<rparr>"
    by (simp add: zeros_like_facts)
  from Cons.prems have "\<forall>i \<in> set layers. well_formed (first ! i)
            \<and> (\<forall>w \<in> set cw. i < length w \<and> shape (w ! i) = shape (first ! i) \<and> well_formed (w ! i))"
    by simp
  from Cons.IH [OF this] layer show ?case by simp
qed

text \<open>
  In the exact arithmetic of the model, the averaging of updates that have the same
  shapes returns the aggregate as the specification words it. This is an equation
  between rational numbers. The code computes in floating point, where every product
  and every sum is rounded, and returns this aggregate up to that rounding only: ten
  updates of weight 1/10 and value 1.0 sum to 0.9999999999999999 in 64-bit floats. The
  lemma is used below for the shapes of the aggregate and for the state of the model
  after a round.
\<close>

lemma federated_averaging_aggregate:
  assumes "updates \<noteq> []"
    and "\<forall>u \<in> set updates. map shape (model_weights u) = map shape (model_weights (hd updates))"
    and "\<forall>u \<in> set updates. \<forall>a \<in> set (model_weights u). well_formed a"
    and "sum_list (map data_size updates) \<noteq> 0"
  shows "federated_averaging (map model_weights updates) (map data_size updates)
       = Inr (aggregate_spec updates)"
proof -
  let ?first = "model_weights (hd updates)"
  let ?total = "sum_list (map data_size updates)"
  obtain u0 rest where us: "updates = u0 # rest" using assms(1) by (cases updates) auto
  have layers: "\<forall>i \<in> set [0..<length ?first]. well_formed (?first ! i)
     \<and> (\<forall>w \<in> set (map model_weights updates).
           i < length w \<and> shape (w ! i) = shape (?first ! i) \<and> well_formed (w ! i))"
  proof (intro ballI conjI)
    fix i assume i: "i \<in> set [0..<length ?first]"
    have "hd updates \<in> set updates" using assms(1) by simp
    with assms(3) i show "well_formed (?first ! i)" by simp
    fix w assume "w \<in> set (map model_weights updates)"
    then obtain u where u: "u \<in> set updates" "w = model_weights u" by auto
    from assms(2) u have sh: "map shape w = map shape ?first" by simp
    then have "length w = length ?first" by (metis length_map)
    with i show il: "i < length w" by simp
    from sh il have "map shape w ! i = map shape ?first ! i" by simp
    with il i show "shape (w ! i) = shape (?first ! i)" by simp
    from assms(3) u il show "well_formed (w ! i)" by simp
  qed
  have zipped: "zip (map data_size updates) (map model_weights updates)
      = map (\<lambda>u. (data_size u, model_weights u)) updates"
    by (simp add: zip_map_map zip_same_conv_map)
  have "federated_averaging (map model_weights updates) (map data_size updates)
     = average_layers (map model_weights updates) (map data_size updates) ?total ?first
         [0..<length ?first]"
    using us by (simp add: federated_averaging_def)
  also have "\<dots> = Inr (map (\<lambda>i. \<lparr>shape = shape (?first ! i),
        data = map (\<lambda>k. sum_list (map (\<lambda>(n, w). of_int n / of_int ?total * data (w ! i) ! k)
                                     (zip (map data_size updates) (map model_weights updates))))
                  [0..<prod_list (shape (?first ! i))]\<rparr>) [0..<length ?first])"
    by (rule average_layers_sum [OF assms(4) _ layers]) simp
  finally show ?thesis
    unfolding zipped by (simp add: comp_def aggregate_spec_def client_weight_def)
qed


section \<open>Properties of the training round\<close>

lemma collected_empty:
  assumes "\<forall>cid \<in> fst ` set client_updates. clients self cid = None"
  shows "collected self client_updates = []"
  using assms by (auto simp: collected_def filter_empty_conv)

text \<open>
  Claim C2. When no update of the dictionary comes from a registered client, the round
  returns status \<open>failed\<close> with reason \<open>no_updates\<close> and the model is the one it was:
  same round number, same history, same weights. The result does not depend on the
  averaging, which is not reached.
\<close>

theorem round_without_updates_fails:
  assumes "\<forall>cid \<in> fst ` set client_updates. clients self cid = None"
  shows "federated_training_round now self client_updates = (Inr (Failed ''no_updates''), self)
       \<and> status (Failed ''no_updates'') = ''failed''"
  using collected_empty [OF assms] by (simp add: federated_training_round_def)

theorem round_without_updates_fails_witness:
  "federated_training_round ''2026-11-04T10:00:00'' (register_client (initial_model [vec [0]]) hospital_a)
     [(''intruder'', reported [vec [1]] 300 1 0)]
   = (Inr (Failed ''no_updates''), register_client (initial_model [vec [0]]) hospital_a)"
proof -
  have "\<forall>cid \<in> fst ` set [(''intruder'', reported [vec [1]] 300 1 0)].
          clients (register_client (initial_model [vec [0]]) hospital_a) cid = None"
    by (simp add: register_client_def initial_model_def hospital_a_def)
  from round_without_updates_fails [OF this] show ?thesis by simp
qed

text \<open>
  Claim C4 says that updates whose tensor counts or shapes differ make the aggregation
  fail with a shape error that the round reports as a failure of its own. The source
  checks neither: a second update with one tensor more is aggregated (the loop runs over
  the tensors of the first update) and the round succeeds; a second update of shape
  \<open>(3,)\<close> against \<open>(2,)\<close> makes numpy raise ValueError, and the exception leaves
  \<open>federated_training_round\<close>, which has no handler.
\<close>

theorem shape_mismatch_is_not_a_round_failure:
  "fst (federated_training_round ''2026-11-04T10:00:00''
          (register_client (register_client (initial_model [vec [0, 0]]) hospital_a) hospital_b)
          [(''hospital_a'', reported [vec [1, 2]] 100 1 0),
           (''hospital_b'', reported [vec [3, 4], vec [5, 6, 7]] 300 0 1)])
   = Inr (Success 1
            \<lparr>accuracy = 1 / 4, loss = Finite (3 / 4), participating_clients = 2,
             total_samples = 400, evaluated_at = ''2026-11-04T10:00:00''\<rparr>
            [vec [5 / 2, 7 / 2]])
 \<and> fst (federated_training_round ''2026-11-04T10:00:00''
          (register_client (register_client (initial_model [vec [0, 0]]) hospital_a) hospital_b)
          [(''hospital_a'', reported [vec [1, 2]] 100 1 0),
           (''hospital_b'', reported [vec [3, 4, 5]] 300 0 1)])
   = Inl broadcast_error
 \<and> current_round (snd (federated_training_round ''2026-11-04T10:00:00''
          (register_client (register_client (initial_model [vec [0, 0]]) hospital_a) hospital_b)
          [(''hospital_a'', reported [vec [1, 2]] 100 1 0),
           (''hospital_b'', reported [vec [3, 4], vec [5, 6, 7]] 300 0 1)])) = 1"
  by code_simp

lemma iadd_shape: "iadd a b = Inr a' \<Longrightarrow> shape a' = shape a"
  by (auto simp: iadd_def split: if_splits)

lemma iadd_error: "iadd a b = Inl e \<Longrightarrow> e = broadcast_error \<and> \<not> broadcastable (shape a) (shape b)"
  by (auto simp: iadd_def split: if_splits)

lemma iadd_not_broadcastable: "\<not> broadcastable (shape a) (shape b) \<Longrightarrow> iadd a b = Inl broadcast_error"
  by (simp add: iadd_def)

lemma shape_scale: "shape (scale w a) = shape a"
  by (simp add: scale_def)

lemma accumulate_clients_raises:
  assumes "\<exists>w \<in> set ws. length w \<le> layer_idx \<or> \<not> broadcastable (shape acc) (shape (w ! layer_idx))"
  shows "\<exists>e. accumulate_clients sizes total_size layer_idx client_idx ws acc = Inl e"
  using assms
proof (induction ws arbitrary: acc client_idx)
  case Nil
  then show ?case by simp
next
  case (Cons w ws)
  let ?b = "scale (of_int (sizes ! client_idx) / of_int total_size) (w ! layer_idx)"
  show ?case
  proof (cases "length sizes \<le> client_idx \<or> total_size = 0 \<or> length w \<le> layer_idx")
    case True
    then show ?thesis by (auto simp: Let_def)
  next
    case False
    show ?thesis
    proof (cases "iadd acc ?b")
      case (Inl e)
      with False show ?thesis by (simp add: Let_def)
    next
      case (Inr acc')
      then have sh: "shape acc' = shape acc" by (rule iadd_shape)
      have "broadcastable (shape acc) (shape (w ! layer_idx))"
        using Inr iadd_not_broadcastable [of acc ?b] by (auto simp: shape_scale)
      with Cons.prems False have
        "\<exists>w \<in> set ws. length w \<le> layer_idx \<or> \<not> broadcastable (shape acc') (shape (w ! layer_idx))"
        using sh by auto
      from Cons.IH [OF this] Inr False show ?thesis by (simp add: Let_def)
    qed
  qed
qed

lemma accumulate_clients_errors:
  assumes "accumulate_clients sizes total_size layer_idx client_idx ws acc = Inl e"
  shows "e \<in> {broadcast_error, IndexError, ZeroDivisionError}"
  using assms
proof (induction ws arbitrary: acc client_idx)
  case Nil
  then show ?case by simp
next
  case (Cons w ws)
  then show ?case
    by (auto simp: Let_def split: if_splits sum.splits dest: iadd_error)
qed

lemma average_layers_errors:
  assumes "average_layers cw sizes total_size first layers = Inl e"
  shows "e \<in> {broadcast_error, IndexError, ZeroDivisionError}"
  using assms
proof (induction layers)
  case Nil
  then show ?case by simp
next
  case (Cons i layers)
  then show ?case
    by (auto split: sum.splits dest: accumulate_clients_errors)
qed

lemma average_layers_raises:
  assumes "i \<in> set layers"
    and "\<exists>w \<in> set cw. length w \<le> i \<or> \<not> broadcastable (shape (first ! i)) (shape (w ! i))"
  shows "\<exists>e. average_layers cw sizes total_size first layers = Inl e"
  using assms(1)
proof (induction layers)
  case Nil
  then show ?case by simp
next
  case (Cons j layers)
  show ?case
  proof (cases "accumulate_clients sizes total_size j 0 cw (zeros_like (first ! j))")
    case (Inl e)
    then show ?thesis by simp
  next
    case (Inr layer_avg)
    have "j \<noteq> i"
    proof
      assume "j = i"
      with assms(2) accumulate_clients_raises [of cw i "zeros_like (first ! i)" sizes total_size 0] Inr
      show False by (simp add: zeros_like_def)
    qed
    with Cons.prems have "i \<in> set layers" by simp
    from Cons.IH [OF this] Inr show ?thesis by auto
  qed
qed

text \<open>
  Claim C4, as the source has it. When a collected update lacks a tensor that the first
  collected update has, or has at that position a tensor whose shape cannot be broadcast
  to the shape of the first update's tensor, the round raises: the exception of the
  averaging (the ValueError of numpy, an IndexError, or the ZeroDivisionError of a zero
  total met before) reaches the caller, and the model is left as it was.
\<close>

theorem shape_mismatch_propagates:
  assumes "u \<in> set (collected self client_updates)"
    and "i < length (model_weights (hd (collected self client_updates)))"
    and "length (model_weights u) \<le> i
       \<or> \<not> broadcastable (shape (model_weights (hd (collected self client_updates)) ! i))
             (shape (model_weights u ! i))"
  shows "\<exists>e. federated_training_round now self client_updates = (Inl e, self)
           \<and> (e = broadcast_error \<or> e = IndexError \<or> e = ZeroDivisionError)"
proof -
  let ?us = "collected self client_updates"
  let ?cw = "map model_weights ?us"
  obtain u0 rest where us: "?us = u0 # rest" using assms(1) by (cases ?us) auto
  then have first: "hd ?us = u0" by simp
  have bad: "\<exists>w \<in> set ?cw. length w \<le> i \<or> \<not> broadcastable (shape (model_weights u0 ! i)) (shape (w ! i))"
    using assms(1,3) first by auto
  have i: "i \<in> set [0..<length (model_weights u0)]" using assms(2) first by simp
  from average_layers_raises [OF i bad] obtain e where
    e: "average_layers ?cw (map data_size ?us) (sum_list (map data_size ?us)) (model_weights u0)
          [0..<length (model_weights u0)] = Inl e" by blast
  then have avg: "federated_averaging ?cw (map data_size ?us) = Inl e"
    using us by (simp add: federated_averaging_def)
  from average_layers_errors [OF e] have "e = broadcast_error \<or> e = IndexError \<or> e = ZeroDivisionError"
    by simp
  moreover have "federated_training_round now self client_updates = (Inl e, self)"
    using avg us by (simp add: federated_training_round_def Let_def)
  ultimately show ?thesis by blast
qed

theorem shape_mismatch_propagates_witness:
  "federated_training_round ''2026-11-04T10:00:00''
          (register_client (register_client (initial_model [vec [0, 0]]) hospital_a) hospital_b)
          [(''hospital_a'', reported [vec [1, 2]] 100 1 0),
           (''hospital_b'', reported [vec [3, 4, 5]] 300 0 1)]
   = (Inl broadcast_error,
      register_client (register_client (initial_model [vec [0, 0]]) hospital_a) hospital_b)"
proof -
  let ?self = "register_client (register_client (initial_model [vec [0, 0]]) hospital_a) hospital_b"
  let ?a = "reported [vec [1, 2]] 100 1 0"
  let ?b = "reported [vec [3, 4, 5]] 300 0 1"
  let ?cu = "[(''hospital_a'', ?a), (''hospital_b'', ?b)]"
  have c: "collected ?self ?cu = [?a, ?b]"
    by (simp add: collected_def register_client_def initial_model_def hospital_a_def hospital_b_def)
  have u: "?b \<in> set (collected ?self ?cu)" unfolding c by simp
  have i: "0 < length (model_weights (hd (collected ?self ?cu)))"
    unfolding c by (simp add: reported_def)
  have bad: "length (model_weights ?b) \<le> 0
       \<or> \<not> broadcastable (shape (model_weights (hd (collected ?self ?cu)) ! 0))
             (shape (model_weights ?b ! 0))"
    unfolding c by (simp add: reported_def vec_def broadcastable_def pad_shape_def)
  from shape_mismatch_propagates [OF u i bad, of "''2026-11-04T10:00:00''"]
  obtain e where run: "federated_training_round ''2026-11-04T10:00:00'' ?self ?cu = (Inl e, ?self)"
    by blast
  have "fst (federated_training_round ''2026-11-04T10:00:00'' ?self ?cu) = Inl broadcast_error"
    by code_simp
  with run show ?thesis by simp
qed


lemma sum_metrics_all:
  assumes "\<forall>u \<in> snd ` set cu. performance u \<noteq> None"
  shows "sum_metrics cu (a, l, n) =
     (a + (\<Sum>u\<leftarrow>map snd cu. local_accuracy u * of_int (data_size u)),
      l + (\<Sum>u\<leftarrow>map snd cu. local_loss u * of_int (data_size u)),
      n + sum_list (map data_size (map snd cu)))"
  using assms
proof (induction cu arbitrary: a l n)
  case Nil
  then show ?case by simp
next
  case (Cons x cu)
  obtain cid u where x: "x = (cid, u)" by (cases x)
  from Cons.prems x obtain perf where p: "performance u = Some perf" by auto
  from Cons.prems have "\<forall>u \<in> snd ` set cu. performance u \<noteq> None" by simp
  from Cons.IH [OF this] show ?case
    by (simp add: x p Let_def local_accuracy_def local_loss_def add.assoc)
qed

lemma weighted_average:
  "(\<Sum>u\<leftarrow>us. client_weight all u * f u)
     = (\<Sum>u\<leftarrow>us. f u * of_int (data_size u)) / of_int (sum_list (map data_size all))"
  by (induction us) (simp_all add: add_divide_distrib client_weight_def)

lemma collected_all:
  assumes "\<forall>cid \<in> fst ` set client_updates. clients self cid \<noteq> None"
  shows "collected self client_updates = map snd client_updates"
proof -
  have "filter (\<lambda>(cid, update). clients self cid \<noteq> None) client_updates = client_updates"
    using assms by (auto simp: filter_id_conv)
  then show ?thesis by (simp add: collected_def)
qed

lemma sum_list_pos_int:
  assumes "xs \<noteq> []" and "\<forall>x \<in> set xs. 0 < (x :: int)"
  shows "0 < sum_list xs"
  using assms by (induction xs) (auto simp: add_pos_nonneg sum_list_nonneg less_imp_le)

lemma evaluate_all_reported:
  assumes "\<forall>u \<in> snd ` set cu. performance u \<noteq> None"
    and "0 < sum_list (map data_size (map snd cu))"
  shows "evaluate_global_model now cu = snapshot_spec now (map snd cu)"
proof -
  define us where "us = map snd cu"
  have sm: "sum_metrics cu (0, 0, 0) =
     ((\<Sum>u\<leftarrow>us. local_accuracy u * of_int (data_size u)),
      (\<Sum>u\<leftarrow>us. local_loss u * of_int (data_size u)),
      sum_list (map data_size us))"
    unfolding us_def using sum_metrics_all [OF assms(1), of 0 0 0] by simp
  have total: "0 < sum_list (map data_size us)" using assms(2) by (simp only: us_def)
  have len: "length cu = length us" by (simp add: us_def)
  have "evaluate_global_model now cu = snapshot_spec now us"
    unfolding evaluate_global_model_def sm snapshot_spec_def weighted_average len
    using total by simp
  then show ?thesis by (simp only: us_def)
qed

lemma shapes_aggregate_spec:
  "map shape (aggregate_spec updates) = map shape (model_weights (hd updates))"
  by (rule nth_equalityI) (simp_all add: aggregate_spec_def)

text \<open>
  A round all of whose updates come from registered clients, have the shapes of the
  global model and positive sample counts, and report their metrics: the round succeeds,
  the weights become the aggregate of the specification, the round number grows by one,
  and the snapshot appended to the history averages the metrics with the weights of the
  aggregation. The numbers of the new weights and of the snapshot are the exact ones;
  the code has them up to the rounding of its floats.
\<close>

lemma round_succeeds_for_registered_updates:
  assumes ne: "client_updates \<noteq> []"
    and reg: "\<forall>cid \<in> fst ` set client_updates. clients self cid \<noteq> None"
    and shapes: "\<forall>u \<in> snd ` set client_updates. map shape (model_weights u) = map shape (global_model self)"
    and wf: "\<forall>u \<in> snd ` set client_updates. \<forall>a \<in> set (model_weights u). well_formed a"
    and pos: "\<forall>u \<in> snd ` set client_updates. 0 < data_size u"
    and perf: "\<forall>u \<in> snd ` set client_updates. performance u \<noteq> None"
  shows "federated_training_round now self client_updates =
     (Inr (Success (current_round self + 1) (snapshot_spec now (map snd client_updates))
             (aggregate_spec (map snd client_updates))),
      self\<lparr>global_model := aggregate_spec (map snd client_updates),
           performance_history := performance_history self @ [snapshot_spec now (map snd client_updates)],
           current_round := current_round self + 1\<rparr>)"
proof -
  let ?us = "map snd client_updates"
  have c: "collected self client_updates = ?us" using reg by (rule collected_all)
  have us: "?us \<noteq> []" using ne by simp
  have global: "\<forall>u \<in> set ?us. map shape (model_weights u) = map shape (global_model self)"
    using shapes by simp
  with hd_in_set [OF us] have first:
    "map shape (model_weights (hd ?us)) = map shape (global_model self)" by blast
  have total: "0 < sum_list (map data_size ?us)"
    by (rule sum_list_pos_int) (use us pos in auto)
  have same: "\<forall>u \<in> set ?us. map shape (model_weights u) = map shape (model_weights (hd ?us))"
    using global first by simp
  have avg: "federated_averaging (map model_weights ?us) (map data_size ?us) = Inr (aggregate_spec ?us)"
    by (rule federated_averaging_aggregate) (use us same wf total in auto)
  have "map shape (aggregate_spec ?us) = map shape (global_model self)"
    using first by (simp only: shapes_aggregate_spec)
  then have set_ok: "set_weights (global_model self) (aggregate_spec ?us) = Inr (aggregate_spec ?us)"
    by (simp add: set_weights_def)
  have ev: "evaluate_global_model now client_updates = snapshot_spec now ?us"
    using perf total by (rule evaluate_all_reported)
  show ?thesis
    unfolding federated_training_round_def c Let_def avg
    using us by (simp add: set_ok ev)
qed


text \<open>
  Claim C3 holds for a round all of whose updates come from registered clients and carry
  their metrics (lemma \<open>round_succeeds_for_registered_updates\<close>). It fails when the
  dictionary also holds an update of an unregistered client: the averaging leaves that
  update out, as the loop over \<open>self.clients\<close> says, but \<open>_evaluate_global_model\<close> is
  given the whole dictionary and has no such test. Below, the registered client reports
  accuracy 1 and loss 0 and is the only one aggregated (the new weights are its own), and
  the snapshot has accuracy 1/4, loss 3/4, two participating clients and 400 samples.
\<close>

theorem unregistered_update_enters_the_metrics:
  "fst (federated_training_round ''2026-11-04T10:00:00''
          (register_client (initial_model [vec [0]]) hospital_a)
          [(''hospital_a'', reported [vec [1]] 100 1 0), (''intruder'', reported [vec [0]] 300 0 1)])
   = Inr (Success 1
            \<lparr>accuracy = 1 / 4, loss = Finite (3 / 4), participating_clients = 2,
             total_samples = 400, evaluated_at = ''2026-11-04T10:00:00''\<rparr>
            [vec [1]])"
  by code_simp

end
